theory Spec2Isabelle
  imports Main "HOL-Library.Word"
begin

unbundle bit_operations_syntax

section \<open>Machine integers and constants\<close>

text \<open>
  Go's \<open>int64\<close> and (on the 64-bit targets the program is built for) \<open>int\<close> are
  64-bit two's complement integers: \<open>+\<close>, \<open>-\<close> and \<open>*\<close> wrap around, comparisons
  are signed (\<open>sint\<close>).
\<close>

type_synonym int64 = "64 word"
type_synonym goint = "64 word"

definition MaxInt64 :: int64 where
  "MaxInt64 = 0x7FFFFFFFFFFFFFFF"

definition MaxTransfers :: int where
  "MaxTransfers = 50"

text \<open>
  The open-mode constants come from the operating system through Go's \<open>os\<close> package
  and are not part of the repository: they are a parameter of the model.
\<close>

record os_flags =
  O_TRUNC :: goint
  O_SYNC :: goint
  O_CREATE :: goint
  O_WRONLY :: goint

definition linux_flags :: os_flags where
  "linux_flags = \<lparr>O_TRUNC = 0x200, O_SYNC = 0x101000, O_CREATE = 0x40, O_WRONLY = 0x1\<rparr>"

section \<open>Errors\<close>

datatype error =
    UnknownConv string
  | UnknownOflag string
  | InvalidBlockSize string
  | Usage
  | BufferSizeZero
  | ErrWriting string
  | ErrReading string
  | ErrSkippingStdin
  | ErrOpeningInput string
  | ErrStating string
  | ErrSeeking string
  | ErrSkippingIn string
  | ErrOpeningOutput string

section \<open>ModeFlags: \<open>convMap\<close>, \<open>flagMap\<close>, \<open>parseConvOflag\<close>\<close>

record bitClearAndSet =
  clear_bits :: goint
  set_bits :: goint

definition convMap :: "os_flags \<Rightarrow> string \<rightharpoonup> bitClearAndSet" where
  "convMap os = [''notrunc'' \<mapsto> \<lparr>clear_bits = O_TRUNC os, set_bits = 0\<rparr>]"

definition flagMap :: "os_flags \<Rightarrow> string \<rightharpoonup> bitClearAndSet" where
  "flagMap os = [''sync'' \<mapsto> \<lparr>clear_bits = 0, set_bits = O_SYNC os\<rparr>]"

definition allowedFlags :: "os_flags \<Rightarrow> goint" where
  "allowedFlags os = O_TRUNC os OR O_SYNC os"

text \<open>\<open>strings.Split(s, ",")\<close>: the pieces between commas; the empty string gives one empty piece.\<close>

fun strings_Split :: "string \<Rightarrow> string list" where
  "strings_Split [] = [[]]"
| "strings_Split (c # cs) =
     (if c = CHR '','' then [] # strings_Split cs
      else (case strings_Split cs of
              [] \<Rightarrow> [[c]]
            | w # ws \<Rightarrow> (c # w) # ws))"

text \<open>The two \<open>for ... range\<close> loops of \<open>parseConvOflag\<close>, one per table.\<close>

fun convLoop :: "os_flags \<Rightarrow> goint \<Rightarrow> string list \<Rightarrow> error + goint" where
  "convLoop os flags [] = Inr flags"
| "convLoop os flags (c # cs) =
     (case convMap os c of
        Some v \<Rightarrow> convLoop os ((flags AND NOT (clear_bits v)) OR set_bits v) cs
      | None \<Rightarrow> Inl (UnknownConv c))"

fun oflagLoop :: "os_flags \<Rightarrow> goint \<Rightarrow> string list \<Rightarrow> error + goint" where
  "oflagLoop os flags [] = Inr flags"
| "oflagLoop os flags (f # fs) =
     (case flagMap os f of
        Some v \<Rightarrow> oflagLoop os ((flags AND NOT (clear_bits v)) OR set_bits v) fs
      | None \<Rightarrow> Inl (UnknownOflag f))"

definition parseConvOflag :: "os_flags \<Rightarrow> string \<Rightarrow> string \<Rightarrow> error + goint" where
  "parseConvOflag os convStr oflagStr =
     (case (if convStr \<noteq> ''none'' then convLoop os 0 (strings_Split convStr) else Inr 0) of
        Inl e \<Rightarrow> Inl e
      | Inr flags \<Rightarrow>
          (if oflagStr \<noteq> ''none'' then oflagLoop os flags (strings_Split oflagStr)
           else Inr flags))"

text \<open>The open mode \<open>outFile\<close> passes to \<open>os.OpenFile\<close> for a named destination.\<close>

definition outFile_perm :: "os_flags \<Rightarrow> goint \<Rightarrow> goint" where
  "outFile_perm os flags = O_CREATE os OR O_WRONLY os OR (flags AND allowedFlags os)"

section \<open>BlockSizeParser: \<open>parseBlockSize\<close>\<close>

text \<open>
  \<open>strconv.ParseInt(s, 10, 64)\<close> of the Go standard library: an optional sign, then one
  or more decimal digits (no underscores in base 10); a value outside the \<open>int64\<close> range
  is an error. \<open>parseBlockSize\<close> only tests \<open>err != nil\<close>, so every error is \<open>None\<close>.
\<close>

definition is_digit :: "char \<Rightarrow> bool" where
  "is_digit c = ((48::nat) \<le> of_char c \<and> of_char c \<le> (57::nat))"

definition digit_val :: "char \<Rightarrow> nat" where
  "digit_val c = of_char c - 48"

definition digits_val :: "string \<Rightarrow> nat" where
  "digits_val s = foldl (\<lambda>a c. a * 10 + digit_val c) 0 s"

definition ParseUint :: "string \<Rightarrow> nat option" where
  "ParseUint s =
     (if s = [] then None
      else if \<not> list_all is_digit s then None
      else if digits_val s \<ge> 2 ^ 64 then None
      else Some (digits_val s))"

definition ParseInt :: "string \<Rightarrow> int64 option" where
  "ParseInt s =
     (if s = [] then None
      else let neg = (hd s = CHR ''-'');
               s0 = (if hd s = CHR ''+'' \<or> hd s = CHR ''-'' then tl s else s)
           in (case ParseUint s0 of
                 None \<Rightarrow> None
               | Some un \<Rightarrow>
                   if \<not> neg \<and> un \<ge> 2 ^ 63 then None
                   else if neg \<and> un > 2 ^ 63 then None
                   else Some (if neg then - of_nat un else of_nat un)))"

text \<open>The \<open>switch lastChar\<close>: the multiplier and the token without a recognised unit.\<close>

definition unitSwitch :: "string \<Rightarrow> int64 \<times> string" where
  "unitSwitch sizeStr =
     (let lastChar = last sizeStr in
      if lastChar = CHR ''k'' \<or> lastChar = CHR ''K'' then (1024, butlast sizeStr)
      else if lastChar = CHR ''M'' then (1024 * 1024, butlast sizeStr)
      else if lastChar = CHR ''G'' then (1024 * 1024 * 1024, butlast sizeStr)
      else if lastChar = CHR ''b'' \<or> lastChar = CHR ''B'' then (512, butlast sizeStr)
      else (1, sizeStr))"

text \<open>\<open>log.Fatalf\<close> ends the process: the result \<open>Inl (InvalidBlockSize s)\<close>.\<close>

definition parseBlockSize :: "string \<Rightarrow> int64 \<Rightarrow> error + int64" where
  "parseBlockSize sizeStr defaultSize =
     (if sizeStr = [] then Inr defaultSize
      else (case unitSwitch sizeStr of
              (multiplier, s) \<Rightarrow>
                (case ParseInt s of
                   None \<Rightarrow> Inl (InvalidBlockSize s)
                 | Some val \<Rightarrow> Inr (val * multiplier))))"

section \<open>TransferState\<close>

text \<open>
  The \<open>Transfer\<close> struct. Timestamps are readings of a clock, as natural numbers; the
  mutex is not data: the locking the code performs is recorded as events (below).
\<close>

record Transfer =
  InputFilename :: string
  OutputFilename :: string
  Bs :: int64
  Count :: int64
  Size :: int64
  Skip :: int64
  Seek :: int64
  Conv :: string
  Oflag :: goint
  Total :: int64
  Transferred :: int64
  StartTime :: nat
  EndTime :: nat
  Finished :: bool

text \<open>
  The three fields that the worker writes while the renderer reads them
  (\<open>Transferred\<close>, \<open>Finished\<close>, \<open>EndTime\<close>), and what one goroutine does to them and
  to the transfer's \<open>Mutex\<close>, in program order. \<open>Total\<close> and \<open>StartTime\<close>, which
  the renderer reads in the same critical section, are not recorded.
\<close>

datatype field = FTransferred | FFinished | FEndTime

datatype event = Lock | Unlock | Rd field | Wr field

text \<open>\<open>guarded held es\<close>: every access in \<open>es\<close> happens while the goroutine holds the mutex.\<close>

fun guarded :: "bool \<Rightarrow> event list \<Rightarrow> bool" where
  "guarded held [] = True"
| "guarded held (Lock # es) = guarded True es"
| "guarded held (Unlock # es) = guarded False es"
| "guarded held (Rd f # es) = (held \<and> guarded held es)"
| "guarded held (Wr f # es) = (held \<and> guarded held es)"

section \<open>The operating system, as the program sees it\<close>

datatype source = Stdin | NamedFile string

text \<open>
  The reader \<open>inFile\<close> returns: the source as it is (\<open>Plain\<close>), a regular file positioned
  by \<open>Seek\<close> (\<open>FileFrom name offset\<close>), \<open>io.LimitReader(r, n)\<close> or
  \<open>io.NewSectionReader(in, off, n)\<close>.
\<close>

datatype stream =
    Plain source
  | FileFrom string int64
  | LimitReader source int64
  | SectionReader string int64 int64

fun stream_limit :: "stream \<Rightarrow> int64 option" where
  "stream_limit (Plain r) = None"
| "stream_limit (FileFrom name off) = None"
| "stream_limit (LimitReader r n) = Some n"
| "stream_limit (SectionReader name off n) = Some n"

datatype file_stat = StatFails | Regular int64 | NonRegular

datatype open_result = OpenFails | Opened file_stat

datatype sink = Stdout | OutFile string goint int64

datatype read_err = NoErr | EOF | ReadFailure string

type_synonym byte = "8 word"

text \<open>
  A reader answers its \<open>k\<close>-th \<open>Read\<close> call, for a buffer of the given length, with the
  data and an error value; a writer answers its \<open>k\<close>-th \<open>Write\<close> call with \<open>nil\<close> or
  an error. \<open>max_alloc\<close> is the longest byte slice the platform can allocate.
\<close>

type_synonym reader = "nat \<Rightarrow> nat \<Rightarrow> byte list \<times> read_err"
type_synonym writer = "nat \<Rightarrow> byte list \<Rightarrow> string option"

record world =
  max_alloc :: nat
  open_input :: "string \<Rightarrow> open_result"
  seek_fails :: "string \<Rightarrow> int64 \<Rightarrow> bool"
  discard_fails :: "source \<Rightarrow> int64 \<Rightarrow> bool"
  open_output_fails :: "string \<Rightarrow> goint \<Rightarrow> bool"
  seek_out_fails :: "string \<Rightarrow> int64 \<Rightarrow> bool"
  reader_of :: "stream \<Rightarrow> reader"
  writer_of :: "sink \<Rightarrow> writer"

section \<open>SourceOpener: \<open>inFile\<close>\<close>

text \<open>
  \<open>totalOut\<close> is the value of the cell \<open>*totalOut\<close> on entry; the second component of
  the result is its value on return. Both \<open>Stat\<close> calls on a regular file see the same
  size.
\<close>

definition inFile ::
  "world \<Rightarrow> string \<Rightarrow> int64 \<Rightarrow> int64 \<Rightarrow> int64 \<Rightarrow> int64 \<Rightarrow> int64 \<Rightarrow> error + (stream \<times> int64)" where
  "inFile env name bs size' skip count totalOut =
     (if name = [] then
        (if 0 < sint skip \<and> discard_fails env Stdin (skip * bs) then Inl ErrSkippingStdin
         else if count \<noteq> MaxInt64 then Inr (LimitReader Stdin (count * bs), count * bs)
         else if 0 < sint size' then Inr (LimitReader Stdin size', size')
         else Inr (Plain Stdin, totalOut))
      else
        (case open_input env name of
           OpenFails \<Rightarrow> Inl (ErrOpeningInput name)
         | Opened StatFails \<Rightarrow> Inl (ErrStating name)
         | Opened (Regular sz) \<Rightarrow>
             (if seek_fails env name (skip * bs) then Inl (ErrSeeking name)
              else if count \<noteq> MaxInt64 then
                Inr (SectionReader name (skip * bs) (count * bs), count * bs)
              else if 0 < sint size' then Inr (SectionReader name (skip * bs) size', size')
              else Inr (FileFrom name (skip * bs), sz - skip * bs))
         | Opened NonRegular \<Rightarrow>
             (if 0 < sint skip \<and> discard_fails env (NamedFile name) (skip * bs)
              then Inl (ErrSkippingIn name)
              else if count \<noteq> MaxInt64 then
                Inr (LimitReader (NamedFile name) (count * bs), count * bs)
              else if 0 < sint size' then Inr (LimitReader (NamedFile name) size', size')
              else Inr (Plain (NamedFile name), totalOut))))"

section \<open>SinkOpener: \<open>outFile\<close>\<close>

definition outFile ::
  "world \<Rightarrow> os_flags \<Rightarrow> string \<Rightarrow> int64 \<Rightarrow> int64 \<Rightarrow> goint \<Rightarrow> error + sink" where
  "outFile env os name bs seek flags =
     (if name = [] then Inr Stdout
      else
        (let perm = outFile_perm os flags in
         if open_output_fails env name perm then Inl (ErrOpeningOutput name)
         else if seek * bs \<noteq> 0 then
           (if seek_out_fails env name (seek * bs) then Inl (ErrSeeking name)
            else Inr (OutFile name perm (seek * bs)))
         else Inr (OutFile name perm 0)))"

section \<open>CopyLoop: \<open>dd\<close>\<close>

text \<open>
  The state of one run of \<open>dd\<close>: how many \<open>Read\<close> and \<open>Write\<close> calls were made, the data
  of every \<open>Write\<close> that returned \<open>nil\<close>, the cell \<open>*bytesWritten\<close> (the transfer's
  \<open>Transferred\<close> field at the only call site) and the accesses made to it.
\<close>

record dd_state =
  reads :: nat
  writes :: nat
  sink_log :: "byte list list"
  bytesWritten :: int64
  trace :: "event list"

text \<open>The state in which \<open>dd\<close> is entered, the cell holding \<open>c\<close>.\<close>

definition dd_start :: "int64 \<Rightarrow> dd_state" where
  "dd_start c = \<lparr>reads = 0, writes = 0, sink_log = [], bytesWritten = c, trace = []\<rparr>"

text \<open>The \<open>if err != nil\<close> at the end of the loop body: \<open>Inr\<close> is the next iteration.\<close>

fun after_read :: "read_err \<Rightarrow> dd_state \<Rightarrow> (error option \<times> dd_state) + dd_state" where
  "after_read NoErr s = Inr s"
| "after_read EOF s = Inl (None, s)"
| "after_read (ReadFailure e) s = Inl (Some (ErrReading e), s)"

text \<open>
  One iteration of the loop. \<open>Read\<close> stores at most \<open>len(buf)\<close> bytes, so \<open>buf[:n]\<close> is
  the data cut to the buffer's length \<open>cap\<close>.
\<close>

definition dd_iter ::
  "reader \<Rightarrow> writer \<Rightarrow> nat \<Rightarrow> dd_state \<Rightarrow> (error option \<times> dd_state) + dd_state" where
  "dd_iter r w cap s =
     (case r (reads s) cap of
        (data, err) \<Rightarrow>
          (let buf = take cap data;
               s1 = s\<lparr>reads := reads s + 1\<rparr>
           in if 0 < length buf then
                (case w (writes s1) buf of
                   Some e \<Rightarrow> Inl (Some (ErrWriting e), s1\<lparr>writes := writes s1 + 1\<rparr>)
                 | None \<Rightarrow>
                     after_read err
                       (s1\<lparr>writes := writes s1 + 1,
                           sink_log := sink_log s1 @ [buf],
                           bytesWritten := bytesWritten s1 + of_nat (length buf),
                           trace := trace s1 @ [Rd FTransferred, Wr FTransferred]\<rparr>))
              else after_read err s1))"

text \<open>The \<open>for\<close> loop, with fuel: \<open>None\<close> is a loop that has not returned yet.\<close>

fun dd_loop ::
  "nat \<Rightarrow> reader \<Rightarrow> writer \<Rightarrow> nat \<Rightarrow> dd_state \<Rightarrow> (error option \<times> dd_state) option" where
  "dd_loop 0 r w cap s = None"
| "dd_loop (Suc fuel) r w cap s =
     (case dd_iter r w cap s of
        Inl res \<Rightarrow> Some res
      | Inr s' \<Rightarrow> dd_loop fuel r w cap s')"

text \<open>The state after at most \<open>n\<close> iterations (the last state, if the loop was left before).\<close>

fun dd_after :: "nat \<Rightarrow> reader \<Rightarrow> writer \<Rightarrow> nat \<Rightarrow> dd_state \<Rightarrow> dd_state" where
  "dd_after 0 r w cap s = s"
| "dd_after (Suc n) r w cap s =
     (case dd_iter r w cap s of
        Inl (res, s') \<Rightarrow> s'
      | Inr s' \<Rightarrow> dd_after n r w cap s')"

text \<open>
  A Go panic that nothing recovers ends the whole process: it is not an error value but
  an outcome of its own.
\<close>

datatype 'a outcome = Done 'a | Panic

text \<open>
  \<open>make([]byte, inBufSize)\<close> panics on a negative length and on a length above \<open>lim\<close>,
  the longest buffer that can be allocated; \<open>dd\<close> does not recover the panic.
\<close>

definition dd ::
  "nat \<Rightarrow> nat \<Rightarrow> reader \<Rightarrow> writer \<Rightarrow> int64 \<Rightarrow> dd_state
     \<Rightarrow> (error option \<times> dd_state) outcome option" where
  "dd lim fuel r w inBufSize s =
     (if inBufSize = 0 then Some (Done (Some BufferSizeZero, s))
      else if sint inBufSize < 0 \<or> lim < unat inBufSize then Some Panic
      else map_option Done (dd_loop fuel r w (unat inBufSize) s))"

definition written_total :: "dd_state \<Rightarrow> nat" where
  "written_total s = sum_list (map length (sink_log s))"

section \<open>TransferSupervisor: \<open>doOneTransfer\<close> and the worker goroutine\<close>

datatype log_entry =
    LogParseError nat error
  | LogTransferError string string error

definition doOneTransfer ::
  "nat \<Rightarrow> world \<Rightarrow> os_flags \<Rightarrow> Transfer
     \<Rightarrow> (error option \<times> Transfer \<times> event list) outcome option" where
  "doOneTransfer fuel env os t =
     (case inFile env (InputFilename t) (Bs t) (Size t) (Skip t) (Count t) (Total t) of
        Inl e \<Rightarrow> Some (Done (Some e, t, []))
      | Inr (r, total') \<Rightarrow>
          (let t1 = t\<lparr>Total := total'\<rparr> in
           case outFile env os (OutputFilename t1) (Bs t1) (Seek t1) (Oflag t1) of
             Inl e \<Rightarrow> Some (Done (Some e, t1, []))
           | Inr w \<Rightarrow>
               (case dd (max_alloc env) fuel (reader_of env r) (writer_of env w) (Bs t1)
                       (dd_start (Transferred t1)) of
                  None \<Rightarrow> None
                | Some Panic \<Rightarrow> Some Panic
                | Some (Done (res, s)) \<Rightarrow>
                    Some (Done (res, t1\<lparr>Transferred := bytesWritten s\<rparr>, trace s)))))"

text \<open>
  The body of the goroutine \<open>run\<close> starts for each transfer: the log line for an error,
  then \<open>Finished\<close> and \<open>EndTime\<close> are set between \<open>Lock\<close> and \<open>Unlock\<close>. A panic
  in \<open>dd\<close> passes through: the process ends with no log line of the worker's and
  \<open>Finished\<close> is never set.
\<close>

definition worker ::
  "nat \<Rightarrow> world \<Rightarrow> os_flags \<Rightarrow> nat \<Rightarrow> Transfer
     \<Rightarrow> (log_entry list \<times> Transfer \<times> event list) outcome option" where
  "worker fuel env os now tr =
     (case doOneTransfer fuel env os tr of
        None \<Rightarrow> None
      | Some Panic \<Rightarrow> Some Panic
      | Some (Done (err, tr', es)) \<Rightarrow>
          Some (Done
            ((case err of
                None \<Rightarrow> []
              | Some e \<Rightarrow> [LogTransferError (InputFilename tr') (OutputFilename tr') e]),
             tr'\<lparr>Finished := True, EndTime := now\<rparr>,
             es @ [Lock, Wr FFinished, Wr FEndTime, Unlock])))"

text \<open>The renderer's snapshot in \<open>printAll\<close>, and the poll in \<open>startProgress\<close>.\<close>

definition printAll_events :: "event list" where
  "printAll_events = [Lock, Rd FTransferred, Rd FFinished, Rd FEndTime, Unlock]"

definition startProgress_events :: "event list" where
  "startProgress_events = [Lock, Rd FFinished, Unlock]"

section \<open>\<open>run\<close>: from the flag values to the transfers that are started\<close>

text \<open>The values of the nine flags of one set, as \<open>f.Parse\<close> leaves them.\<close>

record flagvals =
  inputFile :: string
  outputFile :: string
  bsVal :: string
  convVal :: string
  oflagVal :: string
  countVal :: int64
  skipVal :: int64
  seekVal :: int64
  sizeVal :: int64

definition flag_defaults :: flagvals where
  "flag_defaults =
     \<lparr>inputFile = [], outputFile = [], bsVal = [], convVal = ''none'', oflagVal = ''none'',
      countVal = MaxInt64, skipVal = 0, seekVal = 0, sizeVal = 0\<rparr>"

text \<open>
  \<open>Fatal\<close>: \<open>log.Fatal\<close> ended the process (with the lines logged before);
  \<open>Started\<close>: the workers for these transfers are started.
\<close>

datatype run_result = Fatal error "log_entry list" | Started "log_entry list" "Transfer list"

text \<open>
  The struct literal \<open>&Transfer{...}\<close> of \<open>run\<close>: the fields it does not name
  (\<open>Total\<close>, \<open>Transferred\<close>, \<open>EndTime\<close>, \<open>Finished\<close>) are zero.
\<close>

definition newTransfer :: "flagvals \<Rightarrow> int64 \<Rightarrow> goint \<Rightarrow> nat \<Rightarrow> Transfer" where
  "newTransfer f bs flags t0 =
     \<lparr>InputFilename = inputFile f, OutputFilename = outputFile f, Bs = bs,
      Count = countVal f, Size = sizeVal f, Skip = skipVal f, Seek = seekVal f,
      Conv = convVal f, Oflag = flags, Total = 0, Transferred = 0,
      StartTime = t0, EndTime = 0, Finished = False\<rparr>"

text \<open>
  The loop \<open>for i := 1; i <= *numTransfers; i++\<close> over its indices; \<open>sets (i - 1)\<close>
  are the flag values of set \<open>i\<close> and \<open>now i\<close> is \<open>time.Now()\<close> when set \<open>i\<close> is built.
\<close>

fun buildTransfers ::
  "os_flags \<Rightarrow> (nat \<Rightarrow> nat) \<Rightarrow> (nat \<Rightarrow> flagvals) \<Rightarrow> nat list \<Rightarrow> log_entry list \<Rightarrow> Transfer list \<Rightarrow> run_result" where
  "buildTransfers os now sets [] lg transfers = Started lg transfers"
| "buildTransfers os now sets (i # rest) lg transfers =
     (let f = sets (i - 1) in
      if inputFile f = [] \<and> outputFile f = [] then buildTransfers os now sets rest lg transfers
      else
        (case parseBlockSize (bsVal f) 512 of
           Inl e \<Rightarrow> Fatal e lg
         | Inr bs \<Rightarrow>
             (case parseConvOflag os (convVal f) (oflagVal f) of
                Inl e \<Rightarrow> buildTransfers os now sets rest (lg @ [LogParseError i e]) transfers
              | Inr flags \<Rightarrow>
                  buildTransfers os now sets rest lg
                    (transfers @ [newTransfer f bs flags (now i)]))))"

definition run_config ::
  "os_flags \<Rightarrow> (nat \<Rightarrow> nat) \<Rightarrow> int \<Rightarrow> (nat \<Rightarrow> flagvals) \<Rightarrow> run_result" where
  "run_config os now numTransfers sets =
     (if numTransfers \<le> 0 \<or> numTransfers > MaxTransfers then Fatal Usage []
      else
        (case buildTransfers os now sets [1 ..< Suc (nat numTransfers)] [] [] of
           Fatal e lg \<Rightarrow> Fatal e lg
         | Started lg transfers \<Rightarrow>
             if transfers = [] then Fatal Usage lg else Started lg transfers))"

text \<open>
  \<open>run\<close> as a whole: after a fatal error the process has ended; otherwise one
  goroutine per started transfer runs \<open>worker\<close> (\<open>fin t\<close> is \<open>time.Now()\<close> when the
  worker of \<open>t\<close> ends) and \<open>run\<close> waits for all of them. The outcomes are listed per
  goroutine, in the order of the transfers; a \<open>Panic\<close> among them ends the process
  whatever the others do. The progress display and the signal handler are left out.
\<close>

datatype run_end =
    Exits error "log_entry list"
  | Runs "log_entry list" "(log_entry list \<times> Transfer \<times> event list) outcome option list"

definition run ::
  "nat \<Rightarrow> world \<Rightarrow> os_flags \<Rightarrow> (nat \<Rightarrow> nat) \<Rightarrow> (Transfer \<Rightarrow> nat) \<Rightarrow> int
     \<Rightarrow> (nat \<Rightarrow> flagvals) \<Rightarrow> run_end" where
  "run fuel env os now fin numTransfers sets =
     (case run_config os now numTransfers sets of
        Fatal e lg \<Rightarrow> Exits e lg
      | Started lg transfers \<Rightarrow>
          Runs lg (map (\<lambda>t. worker fuel env os (fin t) t) transfers))"

section \<open>Notions the statements use\<close>

text \<open>
  The unit table in the spec's words: \<open>k\<close>/\<open>K\<close> is 1024, \<open>M\<close> is \<open>1024 ^ 2\<close>, \<open>G\<close> is
  \<open>1024 ^ 3\<close>, \<open>b\<close>/\<open>B\<close> is 512. It is what the theorems on \<open>parseBlockSize\<close> compare
  the code's \<open>switch\<close> with.
\<close>

definition unit_multiplier :: "char \<Rightarrow> nat option" where
  "unit_multiplier u =
     (if u = CHR ''k'' \<or> u = CHR ''K'' then Some 1024
      else if u = CHR ''M'' then Some (1024 * 1024)
      else if u = CHR ''G'' then Some (1024 * 1024 * 1024)
      else if u = CHR ''b'' \<or> u = CHR ''B'' then Some 512
      else None)"

text \<open>\<open>counted c0 s\<close>: the counter of \<open>s\<close> is \<open>c0\<close> plus the bytes of the logged writes.\<close>

definition counted :: "int64 \<Rightarrow> dd_state \<Rightarrow> bool" where
  "counted c0 s = (bytesWritten s = c0 + word_of_nat (written_total s))"

text \<open>
  The loop of \<open>run\<close> in closed form. Set \<open>j\<close> is \<^emph>\<open>named\<close> when it has an input or an
  output name (the others are passed over in silence); \<open>tokens_result\<close> is what
  \<open>parseConvOflag\<close> returns on its two token lists. \<open>logged_sets\<close> are the named sets,
  in order, whose tokens are refused, and \<open>started_sets\<close> the named sets, in order, whose
  tokens are accepted; \<open>log_line\<close> is the line logged for a refused set and \<open>transfer_of\<close>
  the \<open>Transfer\<close> built for an accepted one.
\<close>

definition named :: "(nat \<Rightarrow> flagvals) \<Rightarrow> nat \<Rightarrow> bool" where
  "named sets j = (\<not> (inputFile (sets (j - 1)) = [] \<and> outputFile (sets (j - 1)) = []))"

definition tokens_result :: "os_flags \<Rightarrow> (nat \<Rightarrow> flagvals) \<Rightarrow> nat \<Rightarrow> error + goint" where
  "tokens_result os sets j = parseConvOflag os (convVal (sets (j - 1))) (oflagVal (sets (j - 1)))"

definition logged_sets :: "os_flags \<Rightarrow> (nat \<Rightarrow> flagvals) \<Rightarrow> nat \<Rightarrow> nat list" where
  "logged_sets os sets n =
     filter (\<lambda>j. named sets j \<and> isl (tokens_result os sets j)) [1 ..< Suc n]"

definition started_sets :: "os_flags \<Rightarrow> (nat \<Rightarrow> flagvals) \<Rightarrow> nat \<Rightarrow> nat list" where
  "started_sets os sets n =
     filter (\<lambda>j. named sets j \<and> \<not> isl (tokens_result os sets j)) [1 ..< Suc n]"

definition log_line :: "os_flags \<Rightarrow> (nat \<Rightarrow> flagvals) \<Rightarrow> nat \<Rightarrow> log_entry" where
  "log_line os sets j = LogParseError j (projl (tokens_result os sets j))"

definition transfer_of :: "os_flags \<Rightarrow> (nat \<Rightarrow> nat) \<Rightarrow> (nat \<Rightarrow> flagvals) \<Rightarrow> nat \<Rightarrow> Transfer" where
  "transfer_of os now sets j =
     newTransfer (sets (j - 1)) (projr (parseBlockSize (bsVal (sets (j - 1))) 512))
       (projr (tokens_result os sets j)) (now j)"

section \<open>Example inputs\<close>

text \<open>Concrete inputs on which the theorems below are exercised.\<close>

text \<open>
  A world in which buffers of up to \<open>2 ^ 48\<close> bytes can be allocated, every named
  input is a regular file of 2048 bytes, nothing fails, every reader delivers three bytes
  and then end-of-stream, and every write succeeds.
\<close>

definition three_then_eof :: reader where
  "three_then_eof k cap = (if k = 0 then ([1, 2, 3], NoErr) else ([], EOF))"

definition accept_all :: writer where
  "accept_all k d = None"

definition calm_world :: world where
  "calm_world =
     \<lparr>max_alloc = 281474976710656,
      open_input = (\<lambda>n. Opened (Regular 2048)),
      seek_fails = (\<lambda>n off. False),
      discard_fails = (\<lambda>r n. False),
      open_output_fails = (\<lambda>n p. False),
      seek_out_fails = (\<lambda>n off. False),
      reader_of = (\<lambda>st. three_then_eof),
      writer_of = (\<lambda>sk. accept_all)\<rparr>"

text \<open>Two flag sets, one valid and one with an unknown conversion, in both orders.\<close>

definition noon :: "nat \<Rightarrow> nat" where
  "noon i = 1000 + i"

definition good_set :: flagvals where
  "good_set = flag_defaults\<lparr>inputFile := ''/dev/zero'', outputFile := ''zero1.img'',
     bsVal := ''4M'', sizeVal := 1073741824, oflagVal := ''sync''\<rparr>"

definition bad_conv_set :: flagvals where
  "bad_conv_set = flag_defaults\<lparr>inputFile := ''input.iso'', outputFile := ''output.img'',
     bsVal := ''1M'', convVal := ''sparse''\<rparr>"

definition sets_good_bad :: "nat \<Rightarrow> flagvals" where
  "sets_good_bad k = (if k = 0 then good_set else if k = 1 then bad_conv_set else flag_defaults)"


text \<open>A source that delivers 4 MiB of zeros on every \<open>Read\<close>, like \<open>/dev/zero\<close>.\<close>

definition zeros_4M :: reader where
  "zeros_4M k cap = (replicate 4194304 0, NoErr)"

text \<open>A flag set whose block-size token is \<open>0\<close>.\<close>

definition zero_bs_set :: flagvals where
  "zero_bs_set = flag_defaults\<lparr>inputFile := ''input.iso'', outputFile := ''output.img'',
     bsVal := ''0''\<rparr>"

definition sets_zero_bs :: "nat \<Rightarrow> flagvals" where
  "sets_zero_bs k = (if k = 0 then zero_bs_set else flag_defaults)"

section \<open>ModeFlags: the bitmask the parser can return\<close>

lemma convLoop_flags: "convLoop os 0 cs = Inr fl \<Longrightarrow> fl = 0"
  by (induction cs) (auto simp: convMap_def split: option.splits if_splits)

lemma oflagLoop_flags:
  "oflagLoop os fl0 fs = Inr fl \<Longrightarrow> fl0 = 0 \<or> fl0 = O_SYNC os \<Longrightarrow> fl = 0 \<or> fl = O_SYNC os"
  by (induction fs arbitrary: fl0) (auto simp: flagMap_def split: option.splits if_splits)

lemma parseConvOflag_flags:
  "parseConvOflag os cv ofl = Inr fl \<Longrightarrow> fl = 0 \<or> fl = O_SYNC os"
  unfolding parseConvOflag_def
  by (auto split: sum.splits if_splits dest: convLoop_flags oflagLoop_flags)

lemma notrunc_none: "parseConvOflag os ''notrunc'' ofl = parseConvOflag os ''none'' ofl"
  by (simp add: parseConvOflag_def convMap_def)

lemma perm_no_trunc:
  assumes "fl = 0 \<or> fl = O_SYNC os"
    and "O_SYNC os AND O_TRUNC os = 0"
    and "(O_CREATE os OR O_WRONLY os) AND O_TRUNC os = 0"
  shows "outFile_perm os fl AND O_TRUNC os = 0"
proof -
  have a: "(fl AND allowedFlags os) AND O_TRUNC os = 0"
    using assms(1,2) by (auto simp: allowedFlags_def bit.conj_disj_distrib ac_simps)
  show ?thesis
    using a assms(3) by (simp add: outFile_perm_def bit.conj_disj_distrib2)
qed

lemma outFile_perm_of:
  "outFile env os name b sk fl = Inr (OutFile n perm off) \<Longrightarrow> perm = outFile_perm os fl"
  by (auto simp: outFile_def Let_def split: if_splits)

text \<open>
  Claim C10. Whatever token lists \<open>parseConvOflag\<close> accepts, the bitmask it returns is
  \<open>0\<close> or \<open>O_SYNC\<close> and so never holds the truncate bit; the mode \<open>outFile\<close> opens a
  named destination with never holds it either; and \<open>conv=notrunc\<close> gives the same
  result as \<open>conv=none\<close>. The operating system's constants are a parameter: the sync
  bits, \<open>O_CREATE\<close> and \<open>O_WRONLY\<close> are assumed not to overlap \<open>O_TRUNC\<close>.
\<close>

theorem mode_bitmask_never_truncates:
  assumes "parseConvOflag os cv ofl = Inr fl"
    and "O_SYNC os AND O_TRUNC os = 0"
    and "(O_CREATE os OR O_WRONLY os) AND O_TRUNC os = 0"
  shows "(fl = 0 \<or> fl = O_SYNC os)
       \<and> fl AND O_TRUNC os = 0
       \<and> outFile_perm os fl AND O_TRUNC os = 0
       \<and> (\<forall>n perm off. outFile env os name b sk fl = Inr (OutFile n perm off)
             \<longrightarrow> perm AND O_TRUNC os = 0)
       \<and> parseConvOflag os ''notrunc'' ofl = parseConvOflag os ''none'' ofl"
proof -
  have fl: "fl = 0 \<or> fl = O_SYNC os"
    using assms(1) by (rule parseConvOflag_flags)
  have t: "fl AND O_TRUNC os = 0"
    using fl assms(2) by auto
  have p: "outFile_perm os fl AND O_TRUNC os = 0"
    using fl assms(2,3) by (rule perm_no_trunc)
  have q: "\<forall>n perm off. outFile env os name b sk fl = Inr (OutFile n perm off)
             \<longrightarrow> perm AND O_TRUNC os = 0"
    using p by (auto dest: outFile_perm_of)
  show ?thesis
    using fl t p q notrunc_none by blast
qed

theorem mode_bitmask_never_truncates_witness:
  "parseConvOflag linux_flags ''notrunc'' ''sync'' = Inr 0x101000
   \<and> O_SYNC linux_flags AND O_TRUNC linux_flags = 0
   \<and> (O_CREATE linux_flags OR O_WRONLY linux_flags) AND O_TRUNC linux_flags = 0
   \<and> (0x101000 :: goint) AND O_TRUNC linux_flags = 0
   \<and> outFile_perm linux_flags 0x101000 AND O_TRUNC linux_flags = 0
   \<and> outFile calm_world linux_flags ''out.img'' 512 0 0x101000
         = Inr (OutFile ''out.img'' 0x101041 0)
   \<and> (0x101041 :: goint) AND O_TRUNC linux_flags = 0
   \<and> parseConvOflag linux_flags ''notrunc'' ''sync''
         = parseConvOflag linux_flags ''none'' ''sync''"
proof -
  have a: "parseConvOflag linux_flags ''notrunc'' ''sync'' = Inr 0x101000"
    by (simp add: parseConvOflag_def convMap_def flagMap_def linux_flags_def)
  have b: "O_SYNC linux_flags AND O_TRUNC linux_flags = 0"
    by (simp add: linux_flags_def)
  have c: "(O_CREATE linux_flags OR O_WRONLY linux_flags) AND O_TRUNC linux_flags = 0"
    by (simp add: linux_flags_def)
  have d: "outFile calm_world linux_flags ''out.img'' 512 0 0x101000
             = Inr (OutFile ''out.img'' 0x101041 0)"
    by (simp add: outFile_def outFile_perm_def allowedFlags_def linux_flags_def calm_world_def)
  show ?thesis
    using mode_bitmask_never_truncates [OF a b c, of calm_world "''out.img''" 512 0] a b c d
    by simp
qed

section \<open>ModeFlags: unrecognised tokens\<close>

lemma convLoop_Inl:
  "convLoop os fl cs = Inl e \<Longrightarrow> \<exists>c\<in>set cs. e = UnknownConv c \<and> convMap os c = None"
  by (induction cs arbitrary: fl) (auto split: option.splits)

lemma oflagLoop_Inl:
  "oflagLoop os fl fs = Inl e \<Longrightarrow> \<exists>f\<in>set fs. e = UnknownOflag f \<and> flagMap os f = None"
  by (induction fs arbitrary: fl) (auto split: option.splits)

lemma parseConvOflag_Inl:
  "parseConvOflag os cv ofl = Inl e \<Longrightarrow>
     (cv \<noteq> ''none'' \<and> (\<exists>c\<in>set (strings_Split cv). e = UnknownConv c \<and> convMap os c = None))
   \<or> (ofl \<noteq> ''none'' \<and> (\<exists>f\<in>set (strings_Split ofl). e = UnknownOflag f \<and> flagMap os f = None))"
  unfolding parseConvOflag_def
  by (auto split: sum.splits if_splits dest: convLoop_Inl oflagLoop_Inl)

lemma convLoop_unknown:
  "\<exists>c\<in>set cs. convMap os c = None \<Longrightarrow> \<exists>e. convLoop os fl cs = Inl e"
  by (induction cs arbitrary: fl) (auto split: option.splits)

lemma oflagLoop_unknown:
  "\<exists>c\<in>set cs. flagMap os c = None \<Longrightarrow> \<exists>e. oflagLoop os fl cs = Inl e"
  by (induction cs arbitrary: fl) (auto split: option.splits)

lemma parseConvOflag_unknown:
  assumes "(cv \<noteq> ''none'' \<and> (\<exists>c\<in>set (strings_Split cv). convMap os c = None))
   \<or> (ofl \<noteq> ''none'' \<and> (\<exists>f\<in>set (strings_Split ofl). flagMap os f = None))"
  shows "\<exists>e. parseConvOflag os cv ofl = Inl e"
proof (cases "cv \<noteq> ''none'' \<and> (\<exists>c\<in>set (strings_Split cv). convMap os c = None)")
  case True
  then obtain e where "convLoop os 0 (strings_Split cv) = Inl e"
    using convLoop_unknown by blast
  then show ?thesis
    using True by (simp add: parseConvOflag_def)
next
  case False
  then have o: "ofl \<noteq> ''none''" and u: "\<exists>f\<in>set (strings_Split ofl). flagMap os f = None"
    using assms by auto
  show ?thesis
  proof (cases "if cv \<noteq> ''none'' then convLoop os 0 (strings_Split cv) else Inr 0")
    case (Inl e)
    then show ?thesis by (simp add: parseConvOflag_def)
  next
    case (Inr fl)
    obtain e where "oflagLoop os fl (strings_Split ofl) = Inl e"
      using oflagLoop_unknown [OF u] by blast
    then show ?thesis
      using Inr o by (simp add: parseConvOflag_def)
  qed
qed


section \<open>\<open>run\<close>: which transfers are started\<close>

lemma build_exact:
  assumes "\<forall>j\<in>set idxs. named sets j \<longrightarrow> (\<exists>b. parseBlockSize (bsVal (sets (j - 1))) 512 = Inr b)"
  shows "buildTransfers os now sets idxs lg ts
           = Started
               (lg @ map (log_line os sets)
                       (filter (\<lambda>j. named sets j \<and> isl (tokens_result os sets j)) idxs))
               (ts @ map (transfer_of os now sets)
                       (filter (\<lambda>j. named sets j \<and> \<not> isl (tokens_result os sets j)) idxs))"
  using assms
proof (induction idxs arbitrary: lg ts)
  case Nil
  then show ?case by simp
next
  case (Cons i rest)
  have rest: "\<forall>j\<in>set rest. named sets j \<longrightarrow> (\<exists>b. parseBlockSize (bsVal (sets (j - 1))) 512 = Inr b)"
    using Cons.prems by simp
  note IH = Cons.IH [OF rest]
  show ?case
  proof (cases "named sets i")
    case False
    then have "inputFile (sets (i - 1)) = [] \<and> outputFile (sets (i - 1)) = []"
      by (simp add: named_def)
    then show ?thesis
      using False IH by (simp add: Let_def)
  next
    case True
    then have n: "\<not> (inputFile (sets (i - 1)) = [] \<and> outputFile (sets (i - 1)) = [])"
      by (simp add: named_def)
    obtain b where b: "parseBlockSize (bsVal (sets (i - 1))) 512 = Inr b"
      using Cons.prems True by auto
    show ?thesis
    proof (cases "tokens_result os sets i")
      case (Inl e)
      then have p: "parseConvOflag os (convVal (sets (i - 1))) (oflagVal (sets (i - 1))) = Inl e"
        by (simp add: tokens_result_def)
      have "buildTransfers os now sets (i # rest) lg ts
              = buildTransfers os now sets rest (lg @ [LogParseError i e]) ts"
        using n b p by (auto simp: Let_def)
      then show ?thesis
        using True Inl IH [of "lg @ [LogParseError i e]" ts] by (simp add: log_line_def)
    next
      case (Inr fl)
      then have p: "parseConvOflag os (convVal (sets (i - 1))) (oflagVal (sets (i - 1))) = Inr fl"
        by (simp add: tokens_result_def)
      have "buildTransfers os now sets (i # rest) lg ts
              = buildTransfers os now sets rest lg (ts @ [newTransfer (sets (i - 1)) b fl (now i)])"
        using n b p by (auto simp: Let_def)
      then show ?thesis
        using True Inr b IH [of lg "ts @ [newTransfer (sets (i - 1)) b fl (now i)]"]
        by (simp add: transfer_of_def)
    qed
  qed
qed

lemma run_config_exact:
  assumes "0 < n" "n \<le> MaxTransfers"
    and "\<forall>j\<in>{1 .. nat n}. named sets j \<longrightarrow> (\<exists>b. parseBlockSize (bsVal (sets (j - 1))) 512 = Inr b)"
  shows "run_config os now n sets =
           (if started_sets os sets (nat n) = []
            then Fatal Usage (map (log_line os sets) (logged_sets os sets (nat n)))
            else Started (map (log_line os sets) (logged_sets os sets (nat n)))
                         (map (transfer_of os now sets) (started_sets os sets (nat n))))"
proof -
  have "\<forall>j\<in>set [1 ..< Suc (nat n)]. named sets j
          \<longrightarrow> (\<exists>b. parseBlockSize (bsVal (sets (j - 1))) 512 = Inr b)"
    using assms(3) by auto
  from build_exact [OF this, of os now "[]" "[]"]
  show ?thesis
    using assms(1,2) by (simp add: run_config_def logged_sets_def started_sets_def)
qed


lemma pbs_4M: "parseBlockSize ''4M'' 512 = Inr 4194304"
  by (simp add: parseBlockSize_def unitSwitch_def ParseInt_def ParseUint_def digits_val_def digit_val_def is_digit_def)

lemma pbs_1M: "parseBlockSize ''1M'' 512 = Inr 1048576"
  by (simp add: parseBlockSize_def unitSwitch_def ParseInt_def ParseUint_def digits_val_def digit_val_def is_digit_def)

lemma pco_sparse: "parseConvOflag linux_flags ''sparse'' ''none'' = Inl (UnknownConv ''sparse'')"
  by (simp add: parseConvOflag_def convMap_def)

lemma pco_sync: "parseConvOflag linux_flags ''none'' ''sync'' = Inr 0x101000"
  by (simp add: parseConvOflag_def flagMap_def linux_flags_def)

lemma idx2: "[1 ..< Suc (nat 2)] = [1, 2]"
  by (simp add: upt_rec)


lemma run_good_bad:
  "run_config linux_flags noon 2 sets_good_bad
     = Started [LogParseError 2 (UnknownConv ''sparse'')]
               [newTransfer good_set 4194304 0x101000 (noon 1)]"
  unfolding run_config_def idx2
  by (simp add: MaxTransfers_def sets_good_bad_def good_set_def bad_conv_set_def
       flag_defaults_def pbs_4M pbs_1M pco_sparse pco_sync Let_def)

lemma good_bad_eval:
  "named sets_good_bad (Suc 0)" "named sets_good_bad 2"
  "tokens_result linux_flags sets_good_bad (Suc 0) = Inr 0x101000"
  "tokens_result linux_flags sets_good_bad 2 = Inl (UnknownConv ''sparse'')"
  "transfer_of linux_flags noon sets_good_bad (Suc 0)
     = newTransfer good_set 4194304 0x101000 (noon (Suc 0))"
  by (simp_all add: named_def tokens_result_def transfer_of_def sets_good_bad_def good_set_def
        bad_conv_set_def flag_defaults_def pco_sparse pco_sync pbs_4M)

lemma good_bad_lists:
  "logged_sets linux_flags sets_good_bad (nat 2) = [2]"
  "started_sets linux_flags sets_good_bad (nat 2) = [Suc 0]"
  unfolding logged_sets_def started_sets_def idx2
  by (simp_all add: good_bad_eval)

text \<open>
  Claim C4, as amended. When set \<open>i\<close> (of \<open>1..numTransfers\<close>, with an input or output
  name, every such set's block size parsing) has an unrecognised token in its conversion
  or output-flag list, \<open>parseConvOflag\<close> fails with an error naming a token of that list
  which the table does not hold; \<open>run\<close> logs it for set \<open>i\<close>, builds no transfer for
  set \<open>i\<close>, and goes on. The lines logged are exactly those of the named sets whose tokens
  are refused, and the transfers built are exactly those of the named sets whose tokens
  are accepted, in the order of the sets: set \<open>i\<close> is among the former and not among the
  latter, and every set whose tokens are valid is started. The process ends before any
  transfer starts only with the usage message, and only when no set at all is accepted.
\<close>

theorem unknown_token_skips_one_transfer:
  assumes n: "0 < n" "n \<le> MaxTransfers"
    and i: "1 \<le> i" "i \<le> nat n"
    and conf: "\<not> (inputFile (sets (i - 1)) = [] \<and> outputFile (sets (i - 1)) = [])"
    and unknown:
      "(convVal (sets (i - 1)) \<noteq> ''none''
          \<and> (\<exists>c\<in>set (strings_Split (convVal (sets (i - 1)))). convMap os c = None))
       \<or> (oflagVal (sets (i - 1)) \<noteq> ''none''
          \<and> (\<exists>c\<in>set (strings_Split (oflagVal (sets (i - 1)))). flagMap os c = None))"
    and sizes: "\<forall>j\<in>{1 .. nat n}.
         \<not> (inputFile (sets (j - 1)) = [] \<and> outputFile (sets (j - 1)) = [])
         \<longrightarrow> (\<exists>b. parseBlockSize (bsVal (sets (j - 1))) 512 = Inr b)"
  shows "\<exists>e lg ts.
           parseConvOflag os (convVal (sets (i - 1))) (oflagVal (sets (i - 1))) = Inl e
         \<and> (\<exists>c. (e = UnknownConv c \<and> c \<in> set (strings_Split (convVal (sets (i - 1))))
                    \<and> convMap os c = None)
                \<or> (e = UnknownOflag c \<and> c \<in> set (strings_Split (oflagVal (sets (i - 1))))
                    \<and> flagMap os c = None))
         \<and> lg = map (log_line os sets) (logged_sets os sets (nat n))
         \<and> ts = map (transfer_of os now sets) (started_sets os sets (nat n))
         \<and> i \<in> set (logged_sets os sets (nat n))
         \<and> log_line os sets i = LogParseError i e
         \<and> i \<notin> set (started_sets os sets (nat n))
         \<and> LogParseError i e \<in> set lg
         \<and> (run_config os now n sets = Started lg ts \<and> ts \<noteq> []
              \<or> run_config os now n sets = Fatal Usage lg \<and> ts = [])
         \<and> (\<forall>j b fl. 1 \<le> j \<and> j \<le> nat n
                \<and> \<not> (inputFile (sets (j - 1)) = [] \<and> outputFile (sets (j - 1)) = [])
                \<and> parseBlockSize (bsVal (sets (j - 1))) 512 = Inr b
                \<and> parseConvOflag os (convVal (sets (j - 1))) (oflagVal (sets (j - 1))) = Inr fl
              \<longrightarrow> j \<in> set (started_sets os sets (nat n))
                  \<and> transfer_of os now sets j = newTransfer (sets (j - 1)) b fl (now j)
                  \<and> run_config os now n sets = Started lg ts
                  \<and> newTransfer (sets (j - 1)) b fl (now j) \<in> set ts)"
proof -
  let ?lg = "map (log_line os sets) (logged_sets os sets (nat n))"
  let ?ts = "map (transfer_of os now sets) (started_sets os sets (nat n))"
  obtain e where e: "parseConvOflag os (convVal (sets (i - 1))) (oflagVal (sets (i - 1))) = Inl e"
    using parseConvOflag_unknown [OF unknown] by blast
  have names: "\<exists>c. (e = UnknownConv c \<and> c \<in> set (strings_Split (convVal (sets (i - 1))))
                    \<and> convMap os c = None)
                \<or> (e = UnknownOflag c \<and> c \<in> set (strings_Split (oflagVal (sets (i - 1))))
                    \<and> flagMap os c = None)"
    using parseConvOflag_Inl [OF e] by blast
  have ni: "named sets i" using conf by (simp add: named_def)
  have ti: "tokens_result os sets i = Inl e" using e by (simp add: tokens_result_def)
  have iin: "i \<in> set [1 ..< Suc (nat n)]" using i by auto
  have il: "i \<in> set (logged_sets os sets (nat n))"
    using i ni ti by (auto simp: logged_sets_def simp del: upt_Suc)
  have ll: "log_line os sets i = LogParseError i e"
    using ti by (simp add: log_line_def)
  have ns: "i \<notin> set (started_sets os sets (nat n))"
    using ti by (simp add: started_sets_def)
  have lm: "LogParseError i e \<in> set ?lg"
    using il ll by force
  have sz: "\<forall>j\<in>{1 .. nat n}. named sets j
              \<longrightarrow> (\<exists>b. parseBlockSize (bsVal (sets (j - 1))) 512 = Inr b)"
    using sizes by (simp add: named_def)
  have r: "run_config os now n sets = (if ?ts = [] then Fatal Usage ?lg else Started ?lg ?ts)"
    using run_config_exact [OF n sz, of os now] by simp
  have res: "run_config os now n sets = Started ?lg ?ts \<and> ?ts \<noteq> []
              \<or> run_config os now n sets = Fatal Usage ?lg \<and> ?ts = []"
    using r by (cases "?ts = []") simp_all
  have all: "\<forall>j b fl. 1 \<le> j \<and> j \<le> nat n
                \<and> \<not> (inputFile (sets (j - 1)) = [] \<and> outputFile (sets (j - 1)) = [])
                \<and> parseBlockSize (bsVal (sets (j - 1))) 512 = Inr b
                \<and> parseConvOflag os (convVal (sets (j - 1))) (oflagVal (sets (j - 1))) = Inr fl
              \<longrightarrow> j \<in> set (started_sets os sets (nat n))
                  \<and> transfer_of os now sets j = newTransfer (sets (j - 1)) b fl (now j)
                  \<and> run_config os now n sets = Started ?lg ?ts
                  \<and> newTransfer (sets (j - 1)) b fl (now j) \<in> set ?ts"
  proof (intro allI impI)
    fix j b fl
    assume a: "1 \<le> j \<and> j \<le> nat n
                \<and> \<not> (inputFile (sets (j - 1)) = [] \<and> outputFile (sets (j - 1)) = [])
                \<and> parseBlockSize (bsVal (sets (j - 1))) 512 = Inr b
                \<and> parseConvOflag os (convVal (sets (j - 1))) (oflagVal (sets (j - 1))) = Inr fl"
    have nj: "named sets j" using a by (simp add: named_def)
    have tj: "tokens_result os sets j = Inr fl" using a by (simp add: tokens_result_def)
    have jin: "j \<in> set [1 ..< Suc (nat n)]" using a by auto
    have js: "j \<in> set (started_sets os sets (nat n))"
      using a nj tj by (auto simp: started_sets_def simp del: upt_Suc)
    have tr: "transfer_of os now sets j = newTransfer (sets (j - 1)) b fl (now j)"
      using a tj by (simp add: transfer_of_def)
    have m: "newTransfer (sets (j - 1)) b fl (now j) \<in> set ?ts"
      using js tr by force
    then have "?ts \<noteq> []" by auto
    then have "run_config os now n sets = Started ?lg ?ts"
      using r by simp
    then show "j \<in> set (started_sets os sets (nat n))
                  \<and> transfer_of os now sets j = newTransfer (sets (j - 1)) b fl (now j)
                  \<and> run_config os now n sets = Started ?lg ?ts
                  \<and> newTransfer (sets (j - 1)) b fl (now j) \<in> set ?ts"
      using js tr m by (intro conjI)
  qed
  show ?thesis
    using e names il ll ns lm res all by (intro exI [of _ e] exI [of _ ?lg] exI [of _ ?ts] conjI refl)
qed


theorem unknown_token_skips_one_transfer_witness:
  "\<exists>lg ts. lg = [LogParseError 2 (UnknownConv ''sparse'')]
     \<and> ts = [newTransfer good_set 4194304 0x101000 (noon 1)]
     \<and> run_config linux_flags noon 2 sets_good_bad = Started lg ts
     \<and> 2 \<notin> set (started_sets linux_flags sets_good_bad (nat 2))"
proof -
  have cv: "convVal (sets_good_bad (Suc 0)) = ''sparse''"
    "oflagVal (sets_good_bad (Suc 0)) = ''none''"
    by (simp_all add: sets_good_bad_def bad_conv_set_def flag_defaults_def)
  have h1: "(0::int) < 2" "(2::int) \<le> MaxTransfers"
    by (simp_all add: MaxTransfers_def)
  have h2: "(1::nat) \<le> 2" "(2::nat) \<le> nat 2" by simp_all
  have h3: "\<not> (inputFile (sets_good_bad (2 - 1)) = [] \<and> outputFile (sets_good_bad (2 - 1)) = [])"
    by (simp add: sets_good_bad_def bad_conv_set_def flag_defaults_def)
  have h4: "(convVal (sets_good_bad (2 - 1)) \<noteq> ''none''
          \<and> (\<exists>c\<in>set (strings_Split (convVal (sets_good_bad (2 - 1)))). convMap linux_flags c = None))
       \<or> (oflagVal (sets_good_bad (2 - 1)) \<noteq> ''none''
          \<and> (\<exists>c\<in>set (strings_Split (oflagVal (sets_good_bad (2 - 1)))). flagMap linux_flags c = None))"
    by (simp add: cv convMap_def)
  have h5: "\<forall>j\<in>{1 .. nat 2}.
         \<not> (inputFile (sets_good_bad (j - 1)) = [] \<and> outputFile (sets_good_bad (j - 1)) = [])
         \<longrightarrow> (\<exists>b. parseBlockSize (bsVal (sets_good_bad (j - 1))) 512 = Inr b)"
  proof
    fix j :: nat
    assume "j \<in> {1 .. nat 2}"
    then have "j = 1 \<or> j = 2" by auto
    then show "\<not> (inputFile (sets_good_bad (j - 1)) = [] \<and> outputFile (sets_good_bad (j - 1)) = [])
         \<longrightarrow> (\<exists>b. parseBlockSize (bsVal (sets_good_bad (j - 1))) 512 = Inr b)"
      by (auto simp: sets_good_bad_def good_set_def bad_conv_set_def flag_defaults_def pbs_4M pbs_1M)
  qed
  from unknown_token_skips_one_transfer [OF h1 h2 h3 h4 h5, of noon]
  obtain e lg ts where
    lg: "lg = map (log_line linux_flags sets_good_bad) (logged_sets linux_flags sets_good_bad (nat 2))"
    and ts: "ts = map (transfer_of linux_flags noon sets_good_bad)
                    (started_sets linux_flags sets_good_bad (nat 2))"
    and ns: "2 \<notin> set (started_sets linux_flags sets_good_bad (nat 2))"
    and res: "run_config linux_flags noon 2 sets_good_bad = Started lg ts \<and> ts \<noteq> []
              \<or> run_config linux_flags noon 2 sets_good_bad = Fatal Usage lg \<and> ts = []"
    by blast
  have lg': "lg = [LogParseError 2 (UnknownConv ''sparse'')]"
    unfolding lg good_bad_lists by (simp add: log_line_def good_bad_eval)
  have ts': "ts = [newTransfer good_set 4194304 0x101000 (noon 1)]"
    unfolding ts good_bad_lists by (simp add: good_bad_eval)
  have "run_config linux_flags noon 2 sets_good_bad = Started lg ts"
    using res ts' by simp
  then show ?thesis
    using lg' ts' ns by blast
qed

text \<open>
  Claim C4 as the spec states it fails: with two sets, the second holding the unknown
  conversion \<open>sparse\<close>, the process is not ended; the error is logged and the first
  transfer is started.
\<close>

theorem unknown_token_not_fatal:
  "run_config linux_flags noon 2 sets_good_bad
     = Started [LogParseError 2 (UnknownConv ''sparse'')]
               [newTransfer good_set 4194304 0x101000 (noon 1)]"
  by (rule run_good_bad)




section \<open>BlockSizeParser: what a token parses to\<close>

lemma digit_not_unit: "is_digit c \<Longrightarrow> unit_multiplier c = None"
  by (auto simp: is_digit_def unit_multiplier_def)

lemma digit_not_sign: "is_digit c \<Longrightarrow> c \<noteq> CHR ''+'' \<and> c \<noteq> CHR ''-''"
  by (auto simp: is_digit_def)

lemma unitSwitch_unit:
  "unit_multiplier u = Some m \<Longrightarrow> unitSwitch (ds @ [u]) = (of_nat m, ds)"
  by (auto simp: unit_multiplier_def unitSwitch_def split: if_splits)

lemma unitSwitch_other:
  "unit_multiplier c = None \<Longrightarrow> unitSwitch (ds @ [c]) = (1, ds @ [c])"
  by (auto simp: unit_multiplier_def unitSwitch_def split: if_splits)

lemma unitSwitch_digits:
  assumes "ds \<noteq> []" "list_all is_digit ds"
  shows "unitSwitch ds = (1, ds)"
proof -
  obtain xs c where ds: "ds = xs @ [c]"
    using assms(1) by (metis rev_exhaust)
  then have "is_digit c" using assms(2) by simp
  then show ?thesis
    using unitSwitch_other [of c xs] digit_not_unit ds by simp
qed

lemma ParseInt_digits:
  assumes "ds \<noteq> []" "list_all is_digit ds"
  shows "ParseInt ds = (if digits_val ds < 2 ^ 63 then Some (of_nat (digits_val ds)) else None)"
proof -
  have "is_digit (hd ds)"
    using assms by (cases ds) auto
  then have "hd ds \<noteq> CHR ''+''" "hd ds \<noteq> CHR ''-''"
    using digit_not_sign by auto
  then show ?thesis
    using assms by (auto simp: ParseInt_def ParseUint_def Let_def)
qed

lemma ParseInt_trailing:
  assumes "list_all is_digit ds" "\<not> is_digit c"
  shows "ParseInt (ds @ [c]) = None"
proof (cases ds)
  case Nil
  then show ?thesis
    by (auto simp: ParseInt_def ParseUint_def Let_def assms(2))
next
  case (Cons x xs)
  then have "is_digit x" using assms(1) by simp
  then have "x \<noteq> CHR ''+''" "x \<noteq> CHR ''-''"
    using digit_not_sign by auto
  then show ?thesis
    using Cons assms by (auto simp: ParseInt_def ParseUint_def Let_def)
qed

lemma sint_of_int_range:
  "- (2 ^ 63) \<le> k \<Longrightarrow> k < 2 ^ 63 \<Longrightarrow> sint (word_of_int k :: int64) = k"
  by (simp add: sint_sbintrunc' signed_take_bit_int_eq_self)

lemma sint_of_nat_small:
  "n < 2 ^ 63 \<Longrightarrow> sint (word_of_nat n :: int64) = int n"
  using sint_of_int_range [of "int n"] by simp

lemma sint_mult_range:
  fixes a b :: int64
  assumes "- (2 ^ 63) \<le> sint a * sint b" "sint a * sint b < 2 ^ 63"
  shows "sint (a * b) = sint a * sint b"
proof -
  have "a * b = word_of_int (sint a * sint b)"
    by simp
  then show ?thesis
    using sint_of_int_range [OF assms] by simp
qed

lemma of_nat_mult_w: "(word_of_nat a :: int64) * word_of_nat b = word_of_nat (a * b)"
  by simp

lemma pbs_unit:
  assumes "ds \<noteq> []" "list_all is_digit ds" "unit_multiplier u = Some m"
  shows "parseBlockSize (ds @ [u]) d =
           (if digits_val ds < 2 ^ 63 then Inr (word_of_nat (digits_val ds) * word_of_nat m)
            else Inl (InvalidBlockSize ds))"
  using assms by (simp add: parseBlockSize_def unitSwitch_unit ParseInt_digits)

lemma pbs_digits:
  assumes "ds \<noteq> []" "list_all is_digit ds"
  shows "parseBlockSize ds d =
           (if digits_val ds < 2 ^ 63 then Inr (word_of_nat (digits_val ds))
            else Inl (InvalidBlockSize ds))"
  using assms by (simp add: parseBlockSize_def unitSwitch_digits ParseInt_digits)

lemma pbs_trailing:
  assumes "list_all is_digit ds" "\<not> is_digit c" "unit_multiplier c = None"
  shows "parseBlockSize (ds @ [c]) d = Inl (InvalidBlockSize (ds @ [c]))"
  using assms by (simp add: parseBlockSize_def unitSwitch_other ParseInt_trailing)

lemma pbs_fails:
  assumes "tok \<noteq> []" "ParseInt (snd (unitSwitch tok)) = None"
  shows "parseBlockSize tok d = Inl (InvalidBlockSize (snd (unitSwitch tok)))"
  using assms by (cases "unitSwitch tok") (simp add: parseBlockSize_def)


text \<open>
  Claim C3, as amended. For a non-empty string of decimal digits \<open>ds\<close> with value
  \<open>digits_val ds\<close>: followed by a unit \<open>k\<close>/\<open>K\<close>, \<open>M\<close>, \<open>G\<close>, \<open>b\<close>/\<open>B\<close>, the
  parsed byte count is the value times 1024, \<open>1024 ^ 2\<close>, \<open>1024 ^ 3\<close>, 512, provided the
  product is below \<open>2 ^ 63\<close> (in general it is that product as a 64-bit word); alone,
  it is the value, provided it is below \<open>2 ^ 63\<close>; a value of \<open>2 ^ 63\<close> or more, an
  unrecognised trailing character, and any token whose numeric portion \<open>ParseInt\<close>
  rejects, are the fatal error; the empty token gives the default.
\<close>

theorem parseBlockSize_units:
  assumes "ds \<noteq> []" and "list_all is_digit ds"
  shows "(\<forall>u m. unit_multiplier u = Some m \<and> digits_val ds * m < 2 ^ 63
            \<longrightarrow> (\<exists>w. parseBlockSize (ds @ [u]) d = Inr w \<and> sint w = int (digits_val ds * m)))
       \<and> (\<forall>u m. unit_multiplier u = Some m \<and> digits_val ds < 2 ^ 63
            \<longrightarrow> parseBlockSize (ds @ [u]) d = Inr (word_of_nat (digits_val ds * m)))
       \<and> (digits_val ds < 2 ^ 63
            \<longrightarrow> (\<exists>w. parseBlockSize ds d = Inr w \<and> sint w = int (digits_val ds)))
       \<and> (2 ^ 63 \<le> digits_val ds
            \<longrightarrow> parseBlockSize ds d = Inl (InvalidBlockSize ds)
              \<and> (\<forall>u m. unit_multiplier u = Some m
                     \<longrightarrow> parseBlockSize (ds @ [u]) d = Inl (InvalidBlockSize ds)))
       \<and> (\<forall>c. \<not> is_digit c \<and> unit_multiplier c = None
            \<longrightarrow> parseBlockSize (ds @ [c]) d = Inl (InvalidBlockSize (ds @ [c])))
       \<and> (\<forall>tok. tok \<noteq> [] \<and> ParseInt (snd (unitSwitch tok)) = None
            \<longrightarrow> parseBlockSize tok d = Inl (InvalidBlockSize (snd (unitSwitch tok))))
       \<and> parseBlockSize [] d = Inr d"
proof -
  have a: "\<forall>u m. unit_multiplier u = Some m \<and> digits_val ds * m < 2 ^ 63
            \<longrightarrow> (\<exists>w. parseBlockSize (ds @ [u]) d = Inr w \<and> sint w = int (digits_val ds * m))"
  proof (intro allI impI)
    fix u m
    assume h: "unit_multiplier u = Some m \<and> digits_val ds * m < 2 ^ 63"
    then have "0 < m" by (auto simp: unit_multiplier_def split: if_splits)
    then have "digits_val ds \<le> digits_val ds * m" by simp
    then have "digits_val ds < 2 ^ 63" using h by linarith
    then have "parseBlockSize (ds @ [u]) d = Inr (word_of_nat (digits_val ds * m))"
      using pbs_unit [OF assms, of u m d] h by simp
    then show "\<exists>w. parseBlockSize (ds @ [u]) d = Inr w \<and> sint w = int (digits_val ds * m)"
      using sint_of_nat_small h by blast
  qed
  have b: "\<forall>u m. unit_multiplier u = Some m \<and> digits_val ds < 2 ^ 63
            \<longrightarrow> parseBlockSize (ds @ [u]) d = Inr (word_of_nat (digits_val ds * m))"
    using pbs_unit [OF assms] by simp
  have c: "digits_val ds < 2 ^ 63
            \<longrightarrow> (\<exists>w. parseBlockSize ds d = Inr w \<and> sint w = int (digits_val ds))"
    using pbs_digits [OF assms] sint_of_nat_small by auto
  have e: "2 ^ 63 \<le> digits_val ds
            \<longrightarrow> parseBlockSize ds d = Inl (InvalidBlockSize ds)
              \<and> (\<forall>u m. unit_multiplier u = Some m
                     \<longrightarrow> parseBlockSize (ds @ [u]) d = Inl (InvalidBlockSize ds))"
    using pbs_digits [OF assms] pbs_unit [OF assms] by simp
  have f: "\<forall>c. \<not> is_digit c \<and> unit_multiplier c = None
            \<longrightarrow> parseBlockSize (ds @ [c]) d = Inl (InvalidBlockSize (ds @ [c]))"
    using pbs_trailing [OF assms(2)] by blast
  have g: "\<forall>tok. tok \<noteq> [] \<and> ParseInt (snd (unitSwitch tok)) = None
            \<longrightarrow> parseBlockSize tok d = Inl (InvalidBlockSize (snd (unitSwitch tok)))"
    using pbs_fails by blast
  have h: "parseBlockSize [] d = Inr d"
    by (simp add: parseBlockSize_def)
  show ?thesis
    using a b c e f g h by blast
qed


theorem parseBlockSize_units_witness:
  "(\<exists>w. parseBlockSize ''4M'' 512 = Inr w \<and> sint w = 4194304)
   \<and> (\<exists>w. parseBlockSize ''4'' 512 = Inr w \<and> sint w = 4)
   \<and> parseBlockSize ''4x'' 512 = Inl (InvalidBlockSize ''4x'')
   \<and> parseBlockSize [] 512 = Inr 512"
proof -
  have h1: "''4'' \<noteq> []" by simp
  have h2: "list_all is_digit ''4''" by (simp add: is_digit_def)
  have v: "digits_val ''4'' = 4" by (simp add: digits_val_def digit_val_def)
  note t = parseBlockSize_units [OF h1 h2, of 512]
  have m: "unit_multiplier CHR ''M'' = Some 1048576 \<and> digits_val ''4'' * 1048576 < 2 ^ 63"
    by (simp add: unit_multiplier_def v)
  have x: "\<not> is_digit CHR ''x'' \<and> unit_multiplier CHR ''x'' = None"
    by (simp add: is_digit_def unit_multiplier_def)
  have a: "\<exists>w. parseBlockSize (''4'' @ [CHR ''M'']) 512 = Inr w
             \<and> sint w = int (digits_val ''4'' * 1048576)"
    using t m by blast
  have b: "\<exists>w. parseBlockSize ''4'' 512 = Inr w \<and> sint w = int (digits_val ''4'')"
    using t v by simp
  have c: "parseBlockSize (''4'' @ [CHR ''x'']) 512 = Inl (InvalidBlockSize (''4'' @ [CHR ''x'']))"
    using t x by blast
  have d: "parseBlockSize [] 512 = Inr 512"
    using t by blast
  show ?thesis
    using a b c d by (simp add: v)
qed

lemma pbs_overflow: "parseBlockSize ''8589934592G'' 512 = Inr (0x8000000000000000)"
  by (simp add: parseBlockSize_def unitSwitch_def ParseInt_def ParseUint_def digits_val_def digit_val_def is_digit_def)

text \<open>
  Claim C3 as the spec states it fails where the product leaves the \<open>int64\<close> range:
  the token \<open>8589934592G\<close> parses to the negative number \<open>- 2 ^ 63\<close>, not to
  \<open>8589934592 * 1024 ^ 3\<close>.
\<close>

theorem parseBlockSize_wraps:
  "parseBlockSize ''8589934592G'' 512 = Inr (0x8000000000000000)
   \<and> digits_val ''8589934592'' = 8589934592
   \<and> unit_multiplier CHR ''G'' = Some 1073741824
   \<and> sint (0x8000000000000000 :: int64) = - 9223372036854775808
   \<and> sint (0x8000000000000000 :: int64) \<noteq> 8589934592 * 1073741824"
  by (simp add: pbs_overflow digits_val_def digit_val_def unit_multiplier_def)

section \<open>SourceOpener: the resolved length and the stream's bound\<close>

lemma sint_diff_range:
  fixes a b :: int64
  assumes "- (2 ^ 63) \<le> sint a - sint b" "sint a - sint b < 2 ^ 63"
  shows "sint (a - b) = sint a - sint b"
proof -
  have "a - b = word_of_int (sint a - sint b)"
    by simp
  then show ?thesis
    using sint_of_int_range [OF assms] by simp
qed

lemma inFile_count:
  assumes "inFile env name bs sz skip cnt t0 = Inr (r, tot)" "cnt \<noteq> MaxInt64"
  shows "tot = cnt * bs \<and> stream_limit r = Some (cnt * bs)"
  using assms
  by (auto simp: inFile_def split: if_splits open_result.splits file_stat.splits)

lemma inFile_size:
  assumes "inFile env name bs sz skip cnt t0 = Inr (r, tot)" "cnt = MaxInt64" "0 < sint sz"
  shows "tot = sz \<and> stream_limit r = Some sz"
  using assms
  by (auto simp: inFile_def split: if_splits open_result.splits file_stat.splits)

lemma inFile_rest:
  assumes "inFile env name bs sz skip cnt t0 = Inr (r, tot)" "cnt = MaxInt64" "\<not> 0 < sint sz"
  shows "stream_limit r = None
       \<and> (name = [] \<or> open_input env name = Opened NonRegular \<longrightarrow> tot = t0)
       \<and> (\<forall>fsz. name \<noteq> [] \<and> open_input env name = Opened (Regular fsz)
             \<longrightarrow> tot = fsz - skip * bs)"
  using assms
  by (auto simp: inFile_def split: if_splits open_result.splits file_stat.splits)

lemma inFile_wrap:
  "inFile calm_world [] 4 0 0 0x4000000000000000 0 = Inr (LimitReader Stdin 0, 0)"
  by (simp add: inFile_def MaxInt64_def)

lemma inFile_skip2:
  "inFile calm_world ''input.iso'' 512 0 2 MaxInt64 0 = Inr (FileFrom ''input.iso'' 1024, 1024)"
  by (simp add: inFile_def calm_world_def)

lemma inFile_count3:
  "inFile calm_world ''input.iso'' 512 0 0 3 0 = Inr (SectionReader ''input.iso'' 0 1536, 1536)"
  by (simp add: inFile_def calm_world_def MaxInt64_def)


text \<open>
  Claim C1, as amended. \<open>inFile\<close> is called with the \<open>Total\<close> cell of a transfer as
  \<open>run\<close> builds it (zero). Whenever it returns a stream: if the count is not
  \<open>MaxInt64\<close>, the resolved length is \<open>count * bs\<close> in \<open>int64\<close> arithmetic (the exact
  product when that fits in 64 bits) and the stream is limited to it; else if the size
  limit is positive, the resolved length is that limit and the stream is limited to it;
  else the stream is unbounded and the resolved length is 0 for standard input and for a
  source that is not a regular file, and the stat size minus \<open>skip * bs\<close> (again in
  \<open>int64\<close> arithmetic) for a regular file.
\<close>

theorem inFile_resolution:
  assumes "inFile env name bs sz skip cnt (Total (newTransfer f b fl t0)) = Inr (r, tot)"
  shows "(cnt \<noteq> MaxInt64 \<longrightarrow>
            tot = cnt * bs \<and> stream_limit r = Some (cnt * bs)
          \<and> (- (2 ^ 63) \<le> sint cnt * sint bs \<and> sint cnt * sint bs < 2 ^ 63
               \<longrightarrow> sint tot = sint cnt * sint bs))
       \<and> (cnt = MaxInt64 \<and> 0 < sint sz \<longrightarrow> tot = sz \<and> stream_limit r = Some sz)
       \<and> (cnt = MaxInt64 \<and> \<not> 0 < sint sz \<longrightarrow>
            stream_limit r = None
          \<and> (name = [] \<or> open_input env name = Opened NonRegular \<longrightarrow> tot = 0)
          \<and> (\<forall>fsz. name \<noteq> [] \<and> open_input env name = Opened (Regular fsz) \<longrightarrow>
                 tot = fsz - skip * bs
               \<and> (- (2 ^ 63) \<le> sint skip * sint bs \<and> sint skip * sint bs < 2 ^ 63
                    \<and> - (2 ^ 63) \<le> sint fsz - sint skip * sint bs
                    \<and> sint fsz - sint skip * sint bs < 2 ^ 63
                  \<longrightarrow> sint tot = sint fsz - sint skip * sint bs)))"
proof -
  have z: "Total (newTransfer f b fl t0) = 0"
    by (simp add: newTransfer_def)
  have a: "cnt \<noteq> MaxInt64 \<longrightarrow>
            tot = cnt * bs \<and> stream_limit r = Some (cnt * bs)
          \<and> (- (2 ^ 63) \<le> sint cnt * sint bs \<and> sint cnt * sint bs < 2 ^ 63
               \<longrightarrow> sint tot = sint cnt * sint bs)"
    using inFile_count [OF assms] sint_mult_range [of cnt bs] by auto
  have b: "cnt = MaxInt64 \<and> 0 < sint sz \<longrightarrow> tot = sz \<and> stream_limit r = Some sz"
    using inFile_size [OF assms] by auto
  have c: "cnt = MaxInt64 \<and> \<not> 0 < sint sz \<longrightarrow>
            stream_limit r = None
          \<and> (name = [] \<or> open_input env name = Opened NonRegular \<longrightarrow> tot = 0)
          \<and> (\<forall>fsz. name \<noteq> [] \<and> open_input env name = Opened (Regular fsz) \<longrightarrow>
                 tot = fsz - skip * bs
               \<and> (- (2 ^ 63) \<le> sint skip * sint bs \<and> sint skip * sint bs < 2 ^ 63
                    \<and> - (2 ^ 63) \<le> sint fsz - sint skip * sint bs
                    \<and> sint fsz - sint skip * sint bs < 2 ^ 63
                  \<longrightarrow> sint tot = sint fsz - sint skip * sint bs))"
  proof (intro impI conjI allI)
    assume h: "cnt = MaxInt64 \<and> \<not> 0 < sint sz"
    show "stream_limit r = None"
      using inFile_rest [OF assms] h by simp
  next
    assume h: "cnt = MaxInt64 \<and> \<not> 0 < sint sz"
      and n: "name = [] \<or> open_input env name = Opened NonRegular"
    show "tot = 0"
      using inFile_rest [OF assms] h n z by simp
  next
    fix fsz
    assume h: "cnt = MaxInt64 \<and> \<not> 0 < sint sz"
      and n: "name \<noteq> [] \<and> open_input env name = Opened (Regular fsz)"
    show "tot = fsz - skip * bs"
      using inFile_rest [OF assms] h n by simp
  next
    fix fsz
    assume h: "cnt = MaxInt64 \<and> \<not> 0 < sint sz"
      and n: "name \<noteq> [] \<and> open_input env name = Opened (Regular fsz)"
      and g: "- (2 ^ 63) \<le> sint skip * sint bs \<and> sint skip * sint bs < 2 ^ 63
                    \<and> - (2 ^ 63) \<le> sint fsz - sint skip * sint bs
                    \<and> sint fsz - sint skip * sint bs < 2 ^ 63"
    have t: "tot = fsz - skip * bs"
      using inFile_rest [OF assms] h n by simp
    have m: "sint (skip * bs) = sint skip * sint bs"
      using sint_mult_range [of skip bs] g by simp
    show "sint tot = sint fsz - sint skip * sint bs"
      using sint_diff_range [of fsz "skip * bs"] g m t by simp
  qed
  show ?thesis
    using a b c by (intro conjI)
qed


theorem inFile_resolution_witness:
  "inFile calm_world ''input.iso'' 512 0 2 MaxInt64 (Total (newTransfer good_set 512 0 0))
     = Inr (FileFrom ''input.iso'' 1024, 1024)
   \<and> stream_limit (FileFrom ''input.iso'' 1024) = None
   \<and> (1024 :: int64) = 2048 - 2 * 512
   \<and> sint (1024 :: int64) = sint (2048 :: int64) - sint (2 :: int64) * sint (512 :: int64)
   \<and> inFile calm_world ''input.iso'' 512 0 0 3 (Total (newTransfer good_set 512 0 0))
     = Inr (SectionReader ''input.iso'' 0 1536, 1536)
   \<and> stream_limit (SectionReader ''input.iso'' 0 1536) = Some (3 * 512)
   \<and> sint (1536 :: int64) = sint (3 :: int64) * sint (512 :: int64)"
proof -
  have z: "Total (newTransfer good_set 512 0 0) = 0"
    by (simp add: newTransfer_def)
  have h: "inFile calm_world ''input.iso'' 512 0 2 MaxInt64 (Total (newTransfer good_set 512 0 0))
             = Inr (FileFrom ''input.iso'' 1024, 1024)"
    by (simp add: z inFile_skip2)
  have o: "''input.iso'' \<noteq> [] \<and> open_input calm_world ''input.iso'' = Opened (Regular 2048)"
    by (simp add: calm_world_def)
  have g: "- (2 ^ 63) \<le> sint (2 :: int64) * sint (512 :: int64)
           \<and> sint (2 :: int64) * sint (512 :: int64) < 2 ^ 63
           \<and> - (2 ^ 63) \<le> sint (2048 :: int64) - sint (2 :: int64) * sint (512 :: int64)
           \<and> sint (2048 :: int64) - sint (2 :: int64) * sint (512 :: int64) < 2 ^ 63"
    by simp
  from inFile_resolution [OF h]
  have "\<forall>fsz. ''input.iso'' \<noteq> [] \<and> open_input calm_world ''input.iso'' = Opened (Regular fsz) \<longrightarrow>
                 (1024 :: int64) = fsz - 2 * 512
               \<and> (- (2 ^ 63) \<le> sint (2 :: int64) * sint (512 :: int64)
                    \<and> sint (2 :: int64) * sint (512 :: int64) < 2 ^ 63
                    \<and> - (2 ^ 63) \<le> sint fsz - sint (2 :: int64) * sint (512 :: int64)
                    \<and> sint fsz - sint (2 :: int64) * sint (512 :: int64) < 2 ^ 63
                  \<longrightarrow> sint (1024 :: int64) = sint fsz - sint (2 :: int64) * sint (512 :: int64))"
    by simp
  then have "(1024 :: int64) = 2048 - 2 * 512
     \<and> sint (1024 :: int64) = sint (2048 :: int64) - sint (2 :: int64) * sint (512 :: int64)"
    using o g by blast
  then have first: "inFile calm_world ''input.iso'' 512 0 2 MaxInt64
                      (Total (newTransfer good_set 512 0 0))
                    = Inr (FileFrom ''input.iso'' 1024, 1024)
     \<and> stream_limit (FileFrom ''input.iso'' 1024) = None
     \<and> (1024 :: int64) = 2048 - 2 * 512
     \<and> sint (1024 :: int64) = sint (2048 :: int64) - sint (2 :: int64) * sint (512 :: int64)"
    using h by simp
  have h3: "inFile calm_world ''input.iso'' 512 0 0 3 (Total (newTransfer good_set 512 0 0))
             = Inr (SectionReader ''input.iso'' 0 1536, 1536)"
    by (simp add: z inFile_count3)
  have c3: "(3 :: int64) \<noteq> MaxInt64"
    by (simp add: MaxInt64_def)
  have r3: "- (2 ^ 63) \<le> sint (3 :: int64) * sint (512 :: int64)
            \<and> sint (3 :: int64) * sint (512 :: int64) < 2 ^ 63"
    by simp
  from inFile_resolution [OF h3]
  have "(3 :: int64) \<noteq> MaxInt64 \<longrightarrow>
            (1536 :: int64) = 3 * 512
          \<and> stream_limit (SectionReader ''input.iso'' 0 1536) = Some (3 * 512)
          \<and> (- (2 ^ 63) \<le> sint (3 :: int64) * sint (512 :: int64)
               \<and> sint (3 :: int64) * sint (512 :: int64) < 2 ^ 63
               \<longrightarrow> sint (1536 :: int64) = sint (3 :: int64) * sint (512 :: int64))"
    by (rule conjunct1)
  then have second: "stream_limit (SectionReader ''input.iso'' 0 1536) = Some (3 * 512)
     \<and> sint (1536 :: int64) = sint (3 :: int64) * sint (512 :: int64)"
    using c3 r3 by blast
  show ?thesis
    using first h3 second by (intro conjI) (elim conjE, assumption)+
qed

text \<open>
  Claim C1 as the spec states it fails where \<open>count * bs\<close> leaves the \<open>int64\<close> range:
  with a count of \<open>2 ^ 62\<close> blocks of 4 bytes on standard input, the resolved length and
  the stream's limit are 0, not \<open>2 ^ 64\<close>.
\<close>

theorem inFile_count_wraps:
  "inFile calm_world [] 4 0 0 0x4000000000000000 (Total (newTransfer good_set 4 0 0))
     = Inr (LimitReader Stdin 0, 0)
   \<and> (0x4000000000000000 :: int64) \<noteq> MaxInt64
   \<and> sint (0x4000000000000000 :: int64) * sint (4 :: int64) = 18446744073709551616
   \<and> sint (0 :: int64) \<noteq> sint (0x4000000000000000 :: int64) * sint (4 :: int64)"
  by (simp add: inFile_wrap newTransfer_def MaxInt64_def)

section \<open>CopyLoop: the counter and the writes\<close>

lemma after_read_cases:
  "after_read err s = Inr s' \<Longrightarrow> err = NoErr \<and> s' = s"
  "after_read err s = Inl (res, s') \<Longrightarrow> s' = s \<and> ((err = EOF \<and> res = None) \<or> (\<exists>e. err = ReadFailure e \<and> res = Some (ErrReading e)))"
  by (cases err; simp)+

lemma dd_iter_written:
  assumes "dd_iter r w cap s = Inr s' \<or> dd_iter r w cap s = Inl (res, s')"
  shows "(sink_log s' = sink_log s \<and> bytesWritten s' = bytesWritten s)
       \<or> (\<exists>buf. 0 < length buf \<and> length buf \<le> cap \<and> buf = take cap (fst (r (reads s) cap))
             \<and> w (writes s) buf = None
             \<and> sink_log s' = sink_log s @ [buf]
             \<and> bytesWritten s' = bytesWritten s + word_of_nat (length buf))"
proof (cases "r (reads s) cap")
  case (Pair data err)
  show ?thesis
  proof (cases "take cap data = []")
    case True
    then show ?thesis
      using assms Pair by (cases err) (auto simp: dd_iter_def Let_def)
  next
    case False
    show ?thesis
    proof (cases "w (writes s) (take cap data)")
      case None
      then show ?thesis
        using assms Pair False by (cases err) (auto simp: dd_iter_def Let_def)
    next
      case (Some e)
      then show ?thesis
        using assms Pair False by (auto simp: dd_iter_def Let_def)
    qed
  qed
qed

lemma dd_iter_counted:
  assumes "dd_iter r w cap s = Inr s' \<or> dd_iter r w cap s = Inl (res, s')" "counted c0 s"
  shows "counted c0 s'"
  using dd_iter_written [OF assms(1)] assms(2)
  by (auto simp: counted_def written_total_def)

lemma dd_iter_mono:
  assumes "dd_iter r w cap s = Inr s' \<or> dd_iter r w cap s = Inl (res, s')"
  shows "written_total s \<le> written_total s'"
  using dd_iter_written [OF assms(1)]
  by (auto simp: written_total_def)

lemma dd_iter_chunks:
  assumes "dd_iter r w cap s = Inr s' \<or> dd_iter r w cap s = Inl (res, s')"
    and "\<forall>c\<in>set (sink_log s). 0 < length c \<and> length c \<le> cap"
  shows "\<forall>c\<in>set (sink_log s'). 0 < length c \<and> length c \<le> cap"
  using dd_iter_written [OF assms(1)] assms(2)
  by (elim disjE exE conjE) simp_all

lemma dd_after_Suc_Inl:
  "dd_iter r w cap s = Inl (res, s') \<Longrightarrow> dd_after (Suc n) r w cap s = s'"
  by simp

lemma dd_after_Suc_Inr:
  "dd_iter r w cap s = Inr s' \<Longrightarrow> dd_after (Suc n) r w cap s = dd_after n r w cap s'"
  by simp

lemma dd_after_counted:
  "counted c0 s \<Longrightarrow> counted c0 (dd_after n r w cap s)"
proof (induction n arbitrary: s)
  case 0
  then show ?case by simp
next
  case (Suc n)
  show ?case
  proof (cases "dd_iter r w cap s")
    case (Inl p)
    obtain res s' where p: "p = (res, s')" by (cases p)
    have i: "dd_iter r w cap s = Inl (res, s')" using Inl p by simp
    have "counted c0 s'"
      using dd_iter_counted [OF disjI2 [OF i] Suc.prems] .
    then show ?thesis
      by (simp only: dd_after_Suc_Inl [OF i])
  next
    case (Inr s')
    have "counted c0 s'"
      using dd_iter_counted [OF disjI1 [OF Inr] Suc.prems] .
    then have "counted c0 (dd_after n r w cap s')"
      by (rule Suc.IH)
    then show ?thesis
      by (simp only: dd_after_Suc_Inr [OF Inr])
  qed
qed

lemma dd_after_mono:
  "written_total (dd_after n r w cap s) \<le> written_total (dd_after (Suc n) r w cap s)"
proof (induction n arbitrary: s)
  case 0
  show ?case
  proof (cases "dd_iter r w cap s")
    case (Inl p)
    obtain res s' where p: "p = (res, s')" by (cases p)
    have i: "dd_iter r w cap s = Inl (res, s')" using Inl p by simp
    show ?thesis
      using dd_iter_mono [OF disjI2 [OF i]] by (simp only: dd_after_Suc_Inl [OF i] dd_after.simps(1))
  next
    case (Inr s')
    show ?thesis
      using dd_iter_mono [OF disjI1 [OF Inr]]
      by (simp only: dd_after_Suc_Inr [OF Inr] dd_after.simps(1))
  qed
next
  case (Suc n)
  show ?case
  proof (cases "dd_iter r w cap s")
    case (Inl p)
    obtain res s' where p: "p = (res, s')" by (cases p)
    have i: "dd_iter r w cap s = Inl (res, s')" using Inl p by simp
    show ?thesis
      by (simp only: dd_after_Suc_Inl [OF i] order_refl)
  next
    case (Inr s')
    show ?thesis
      using Suc [of s'] by (simp only: dd_after_Suc_Inr [OF Inr])
  qed
qed

lemma dd_after_chunks:
  "\<forall>c\<in>set (sink_log s). 0 < length c \<and> length c \<le> cap \<Longrightarrow>
   \<forall>c\<in>set (sink_log (dd_after n r w cap s)). 0 < length c \<and> length c \<le> cap"
proof (induction n arbitrary: s)
  case 0
  then show ?case by simp
next
  case (Suc n)
  show ?case
  proof (cases "dd_iter r w cap s")
    case (Inl p)
    obtain res s' where p: "p = (res, s')" by (cases p)
    have i: "dd_iter r w cap s = Inl (res, s')" using Inl p by simp
    show ?thesis
      using dd_iter_chunks [OF disjI2 [OF i] Suc.prems]
      by (simp only: dd_after_Suc_Inl [OF i])
  next
    case (Inr s')
    have "\<forall>c\<in>set (sink_log s'). 0 < length c \<and> length c \<le> cap"
      using dd_iter_chunks [OF disjI1 [OF Inr] Suc.prems] .
    then have "\<forall>c\<in>set (sink_log (dd_after n r w cap s')). 0 < length c \<and> length c \<le> cap"
      by (rule Suc.IH)
    then show ?thesis
      by (simp only: dd_after_Suc_Inr [OF Inr])
  qed
qed

lemma dd_loop_after:
  "dd_loop fuel r w cap s = Some (res, s') \<Longrightarrow> s' = dd_after fuel r w cap s"
proof (induction fuel arbitrary: s)
  case 0
  then show ?case by simp
next
  case (Suc fuel)
  show ?case
  proof (cases "dd_iter r w cap s")
    case (Inl p)
    then show ?thesis using Suc.prems by auto
  next
    case (Inr s'')
    then show ?thesis using Suc by simp
  qed
qed


lemma dd_iter_empty:
  "r (reads s) cap = (data, err) \<Longrightarrow> take cap data = [] \<Longrightarrow>
   dd_iter r w cap s = after_read err (s\<lparr>reads := reads s + 1\<rparr>)"
  by (auto simp: dd_iter_def Let_def)

lemma dd_iter_write_error:
  "r (reads s) cap = (data, err) \<Longrightarrow> take cap data \<noteq> [] \<Longrightarrow>
   w (writes s) (take cap data) = Some e \<Longrightarrow>
   dd_iter r w cap s = Inl (Some (ErrWriting e), s\<lparr>reads := reads s + 1, writes := writes s + 1\<rparr>)"
  by (auto simp: dd_iter_def Let_def)

lemma dd_iter_write_ok:
  "r (reads s) cap = (data, err) \<Longrightarrow> take cap data \<noteq> [] \<Longrightarrow>
   w (writes s) (take cap data) = None \<Longrightarrow>
   dd_iter r w cap s =
     after_read err
       (s\<lparr>reads := reads s + 1, writes := writes s + 1,
          sink_log := sink_log s @ [take cap data],
          bytesWritten := bytesWritten s + word_of_nat (length (take cap data)),
          trace := trace s @ [Rd FTransferred, Wr FTransferred]\<rparr>)"
  by (auto simp: dd_iter_def Let_def)

lemma dd_iter_read_failure:
  assumes "r (reads s) cap = (data, ReadFailure e)"
    and "take cap data = [] \<or> w (writes s) (take cap data) = None"
  shows "\<exists>s'. dd_iter r w cap s = Inl (Some (ErrReading e), s')
            \<and> bytesWritten s' = bytesWritten s + word_of_nat (length (take cap data))"
proof (cases "take cap data = []")
  case True
  have "dd_iter r w cap s = Inl (Some (ErrReading e), s\<lparr>reads := reads s + 1\<rparr>)"
    using dd_iter_empty [where r = r and s = s and w = w, OF assms(1) True] by simp
  moreover have "bytesWritten (s\<lparr>reads := reads s + 1\<rparr>)
                   = bytesWritten s + word_of_nat (length (take cap data))"
    unfolding True by simp
  ultimately show ?thesis by blast
next
  case False
  then have "w (writes s) (take cap data) = None" using assms(2) by simp
  then show ?thesis
    using dd_iter_write_ok [where r = r and s = s and w = w, OF assms(1) False] by simp
qed

lemma dd_iter_NoErr:
  assumes "snd (r (reads s) cap) = NoErr" "\<forall>j d. w j d = None"
  shows "\<exists>s'. dd_iter r w cap s = Inr s' \<and> reads s' = reads s + 1"
proof -
  obtain data where d: "r (reads s) cap = (data, NoErr)"
    using assms(1) by (cases "r (reads s) cap") simp
  show ?thesis
  proof (cases "take cap data = []")
    case True
    then show ?thesis using dd_iter_empty [where r = r and s = s and w = w, OF d True] by simp
  next
    case False
    then show ?thesis using dd_iter_write_ok [where r = r and s = s and w = w, OF d False] assms(2) by simp
  qed
qed

lemma dd_iter_EOF:
  assumes "snd (r (reads s) cap) = EOF" "\<forall>j d. w j d = None"
  shows "\<exists>s'. dd_iter r w cap s = Inl (None, s')"
proof -
  obtain data where d: "r (reads s) cap = (data, EOF)"
    using assms(1) by (cases "r (reads s) cap") simp
  show ?thesis
  proof (cases "take cap data = []")
    case True
    then show ?thesis using dd_iter_empty [where r = r and s = s and w = w, OF d True] by simp
  next
    case False
    then show ?thesis using dd_iter_write_ok [where r = r and s = s and w = w, OF d False] assms(2) by simp
  qed
qed

lemma dd_loop_eof:
  assumes "\<forall>j<k. snd (r (reads s + j) cap) = NoErr"
    and "snd (r (reads s + k) cap) = EOF"
    and "\<forall>j d. w j d = None"
  shows "\<exists>s'. dd_loop (Suc k) r w cap s = Some (None, s')"
  using assms
proof (induction k arbitrary: s)
  case 0
  then have "snd (r (reads s) cap) = EOF" by simp
  from dd_iter_EOF [where r = r and s = s, OF this "0.prems"(3)] show ?case by auto
next
  case (Suc k)
  have "snd (r (reads s) cap) = NoErr"
    using Suc.prems(1) [rule_format, of 0] by simp
  from dd_iter_NoErr [where r = r and s = s, OF this Suc.prems(3)]
  obtain s1 where s1: "dd_iter r w cap s = Inr s1" "reads s1 = reads s + 1" by blast
  have a: "\<forall>j<k. snd (r (reads s1 + j) cap) = NoErr"
  proof (intro allI impI)
    fix j assume "j < k"
    then have "Suc j < Suc k" by simp
    then have "snd (r (reads s + Suc j) cap) = NoErr"
      using Suc.prems(1) by blast
    then show "snd (r (reads s1 + j) cap) = NoErr"
      using s1(2) by simp
  qed
  have b: "snd (r (reads s1 + k) cap) = EOF"
    using Suc.prems(2) s1(2) by simp
  from Suc.IH [OF a b Suc.prems(3)]
  obtain s' where "dd_loop (Suc k) r w cap s1 = Some (None, s')" by blast
  then show ?case
    using s1(1) by simp
qed

lemma sint_add_range:
  fixes a b :: int64
  assumes "- (2 ^ 63) \<le> sint a + sint b" "sint a + sint b < 2 ^ 63"
  shows "sint (a + b) = sint a + sint b"
proof -
  have "a + b = word_of_int (sint a + sint b)"
    by simp
  then show ?thesis
    using sint_of_int_range [OF assms] by simp
qed

lemma sint_counter:
  fixes c0 :: int64
  assumes "0 \<le> sint c0" "sint c0 + int t < 2 ^ 63"
  shows "sint (c0 + word_of_nat t) = sint c0 + int t"
proof -
  have "int t < 2 ^ 63" using assms by linarith
  then have "t < 2 ^ 63" by simp
  then have t: "sint (word_of_nat t :: int64) = int t"
    by (rule sint_of_nat_small)
  show ?thesis
    using sint_add_range [of c0 "word_of_nat t"] t assms by simp
qed

lemma dd_positive:
  "0 < sint bs \<Longrightarrow> unat bs \<le> lim \<Longrightarrow>
   dd lim fuel r w bs s = map_option Done (dd_loop fuel r w (unat bs) s)"
  by (auto simp: dd_def)

lemma dd_panics:
  "bs \<noteq> 0 \<Longrightarrow> sint bs < 0 \<or> lim < unat bs \<Longrightarrow> dd lim fuel r w bs s = Some Panic"
  by (auto simp: dd_def)

lemma dd_after_eval:
  "dd_after 2 three_then_eof accept_all 4 (dd_start 0)
     = \<lparr>reads = 2, writes = 1, sink_log = [[1, 2, 3]], bytesWritten = 3,
        trace = [Rd FTransferred, Wr FTransferred]\<rparr>"
  by (simp add: numeral_2_eq_2 dd_iter_def three_then_eof_def accept_all_def dd_start_def)

lemma dd_loop_eval:
  "dd_loop 2 three_then_eof accept_all 4 (dd_start 0)
     = Some (None, \<lparr>reads = 2, writes = 1, sink_log = [[1, 2, 3]], bytesWritten = 3,
        trace = [Rd FTransferred, Wr FTransferred]\<rparr>)"
  by (simp add: numeral_2_eq_2 dd_iter_def three_then_eof_def accept_all_def dd_start_def)

lemma dd_iter_zeros:
  "dd_iter zeros_4M accept_all 4194304 s =
     Inr (s\<lparr>reads := reads s + 1, writes := writes s + 1,
            sink_log := sink_log s @ [replicate 4194304 0],
            bytesWritten := bytesWritten s + 4194304,
            trace := trace s @ [Rd FTransferred, Wr FTransferred]\<rparr>)"
  by (simp add: dd_iter_def zeros_4M_def accept_all_def)

lemma written_total_zeros:
  "written_total (s\<lparr>reads := a, writes := b, sink_log := sink_log s @ [replicate 4194304 x],
       bytesWritten := c, trace := d\<rparr>) = written_total s + 4194304"
  by (simp add: written_total_def)

lemma dd_after_zeros:
  "bytesWritten (dd_after n zeros_4M accept_all 4194304 s) = bytesWritten s + word_of_nat n * 4194304
   \<and> written_total (dd_after n zeros_4M accept_all 4194304 s) = written_total s + n * 4194304"
proof (induction n arbitrary: s)
  case 0
  then show ?case by simp
next
  case (Suc n)
  show ?case
    by (simp add: dd_iter_zeros Suc written_total_zeros algebra_simps)
qed

lemma dd_start_total: "written_total (dd_start c) = 0"
  by (simp add: written_total_def dd_start_def)

lemma dd_start_counter: "bytesWritten (dd_start c) = c"
  by (simp add: dd_start_def)


text \<open>
  Claim C2, as amended. From a state with no write logged yet, after any number of
  iterations of the loop of \<open>dd\<close>: the counter is its initial value plus the sum of the
  sizes of the writes that returned \<open>nil\<close>, in \<open>int64\<close> arithmetic, and that sum never
  decreases; as long as the sum stays in the \<open>int64\<close> range the counter is exactly that
  sum and does not decrease. Every write is of between 1 and one buffer of bytes, the
  bytes just read. A read of no bytes with no error goes to the next iteration;
  end-of-stream leaves the loop with no error; a write error leaves it before the
  counter is touched; after a successful write the count is added and only then the
  read error is looked at, a read error other than end-of-stream leaving the loop with
  the count kept. If the reader reaches end-of-stream at its \<open>k\<close>-th call, with no
  error before and no write failing, the loop returns \<open>nil\<close> within \<open>k + 1\<close> iterations;
  the state it returns is one of the states above. \<open>dd\<close> runs this loop when its
  buffer size is positive and the buffer can be allocated; for a negative size, or one
  above the allocation limit, \<open>make\<close> panics and no iteration is run.
\<close>

theorem dd_counter_sums_writes:
  assumes fresh: "sink_log s0 = []"
  shows
    "(\<forall>n. bytesWritten (dd_after n r w cap s0)
            = bytesWritten s0 + word_of_nat (written_total (dd_after n r w cap s0)))
   \<and> (\<forall>n. written_total (dd_after n r w cap s0) \<le> written_total (dd_after (Suc n) r w cap s0))
   \<and> (\<forall>n. 0 \<le> sint (bytesWritten s0)
          \<and> sint (bytesWritten s0) + int (written_total (dd_after (Suc n) r w cap s0)) < 2 ^ 63
        \<longrightarrow> sint (bytesWritten (dd_after n r w cap s0))
              = sint (bytesWritten s0) + int (written_total (dd_after n r w cap s0))
          \<and> sint (bytesWritten (dd_after n r w cap s0))
              \<le> sint (bytesWritten (dd_after (Suc n) r w cap s0)))
   \<and> (\<forall>n. \<forall>c\<in>set (sink_log (dd_after n r w cap s0)). 0 < length c \<and> length c \<le> cap)
   \<and> (\<forall>fuel res s'. dd_loop fuel r w cap s0 = Some (res, s') \<longrightarrow> s' = dd_after fuel r w cap s0)
   \<and> (\<forall>s data err. r (reads s) cap = (data, err) \<and> take cap data = []
        \<longrightarrow> dd_iter r w cap s = after_read err (s\<lparr>reads := reads s + 1\<rparr>))
   \<and> (\<forall>s data err e. r (reads s) cap = (data, err) \<and> take cap data \<noteq> []
          \<and> w (writes s) (take cap data) = Some e
        \<longrightarrow> dd_iter r w cap s
              = Inl (Some (ErrWriting e), s\<lparr>reads := reads s + 1, writes := writes s + 1\<rparr>))
   \<and> (\<forall>s data err. r (reads s) cap = (data, err) \<and> take cap data \<noteq> []
          \<and> w (writes s) (take cap data) = None
        \<longrightarrow> dd_iter r w cap s
              = after_read err
                  (s\<lparr>reads := reads s + 1, writes := writes s + 1,
                     sink_log := sink_log s @ [take cap data],
                     bytesWritten := bytesWritten s + word_of_nat (length (take cap data)),
                     trace := trace s @ [Rd FTransferred, Wr FTransferred]\<rparr>))
   \<and> (\<forall>s e. after_read NoErr s = Inr s \<and> after_read EOF s = Inl (None, s)
          \<and> after_read (ReadFailure e) s = Inl (Some (ErrReading e), s))
   \<and> (\<forall>k. (\<forall>j<k. snd (r (reads s0 + j) cap) = NoErr) \<and> snd (r (reads s0 + k) cap) = EOF
          \<and> (\<forall>j d. w j d = None)
        \<longrightarrow> (\<exists>s'. dd_loop (Suc k) r w cap s0 = Some (None, s')))
   \<and> (\<forall>lim fuel bs. 0 < sint bs \<and> unat bs \<le> lim
        \<longrightarrow> dd lim fuel r w bs s0 = map_option Done (dd_loop fuel r w (unat bs) s0))
   \<and> (\<forall>lim fuel bs. bs \<noteq> 0 \<and> (sint bs < 0 \<or> lim < unat bs)
        \<longrightarrow> dd lim fuel r w bs s0 = Some Panic)"
proof -
  have c0: "counted (bytesWritten s0) s0"
    using fresh by (simp add: counted_def written_total_def)
  have A: "\<forall>n. bytesWritten (dd_after n r w cap s0)
            = bytesWritten s0 + word_of_nat (written_total (dd_after n r w cap s0))"
    using dd_after_counted [OF c0] by (simp add: counted_def)
  have B: "\<forall>n. written_total (dd_after n r w cap s0) \<le> written_total (dd_after (Suc n) r w cap s0)"
    using dd_after_mono by blast
  have C: "\<forall>n. 0 \<le> sint (bytesWritten s0)
          \<and> sint (bytesWritten s0) + int (written_total (dd_after (Suc n) r w cap s0)) < 2 ^ 63
        \<longrightarrow> sint (bytesWritten (dd_after n r w cap s0))
              = sint (bytesWritten s0) + int (written_total (dd_after n r w cap s0))
          \<and> sint (bytesWritten (dd_after n r w cap s0))
              \<le> sint (bytesWritten (dd_after (Suc n) r w cap s0))"
  proof (intro allI impI)
    fix n
    assume h: "0 \<le> sint (bytesWritten s0)
          \<and> sint (bytesWritten s0) + int (written_total (dd_after (Suc n) r w cap s0)) < 2 ^ 63"
    let ?a = "written_total (dd_after n r w cap s0)"
    let ?b = "written_total (dd_after (Suc n) r w cap s0)"
    have le: "?a \<le> ?b" using B by blast
    have sb: "sint (bytesWritten s0 + word_of_nat ?b) = sint (bytesWritten s0) + int ?b"
      using sint_counter [of "bytesWritten s0" ?b] h by blast
    have "sint (bytesWritten s0) + int ?a < 2 ^ 63"
      using h le by linarith
    then have sa: "sint (bytesWritten s0 + word_of_nat ?a) = sint (bytesWritten s0) + int ?a"
      using sint_counter [of "bytesWritten s0" ?a] h by blast
    have ea: "bytesWritten (dd_after n r w cap s0) = bytesWritten s0 + word_of_nat ?a"
      using A by blast
    have eb: "bytesWritten (dd_after (Suc n) r w cap s0) = bytesWritten s0 + word_of_nat ?b"
      using A by blast
    show "sint (bytesWritten (dd_after n r w cap s0))
              = sint (bytesWritten s0) + int (written_total (dd_after n r w cap s0))
          \<and> sint (bytesWritten (dd_after n r w cap s0))
              \<le> sint (bytesWritten (dd_after (Suc n) r w cap s0))"
      unfolding ea eb sa sb using le by simp
  qed
  have D: "\<forall>n. \<forall>c\<in>set (sink_log (dd_after n r w cap s0)). 0 < length c \<and> length c \<le> cap"
    using dd_after_chunks [of s0 cap] fresh by simp
  have E: "\<forall>fuel res s'. dd_loop fuel r w cap s0 = Some (res, s') \<longrightarrow> s' = dd_after fuel r w cap s0"
    using dd_loop_after by blast
  have F1: "\<forall>s data err. r (reads s) cap = (data, err) \<and> take cap data = []
        \<longrightarrow> dd_iter r w cap s = after_read err (s\<lparr>reads := reads s + 1\<rparr>)"
    using dd_iter_empty [where r = r and w = w] by blast
  have F2: "\<forall>s data err e. r (reads s) cap = (data, err) \<and> take cap data \<noteq> []
          \<and> w (writes s) (take cap data) = Some e
        \<longrightarrow> dd_iter r w cap s
              = Inl (Some (ErrWriting e), s\<lparr>reads := reads s + 1, writes := writes s + 1\<rparr>)"
    using dd_iter_write_error [where r = r and w = w] by blast
  have F3: "\<forall>s data err. r (reads s) cap = (data, err) \<and> take cap data \<noteq> []
          \<and> w (writes s) (take cap data) = None
        \<longrightarrow> dd_iter r w cap s
              = after_read err
                  (s\<lparr>reads := reads s + 1, writes := writes s + 1,
                     sink_log := sink_log s @ [take cap data],
                     bytesWritten := bytesWritten s + word_of_nat (length (take cap data)),
                     trace := trace s @ [Rd FTransferred, Wr FTransferred]\<rparr>)"
    using dd_iter_write_ok [where r = r and w = w] by blast
  have F4: "\<forall>s e. after_read NoErr s = Inr s \<and> after_read EOF s = Inl (None, s)
          \<and> after_read (ReadFailure e) s = Inl (Some (ErrReading e), s)"
    by simp
  have G: "\<forall>k. (\<forall>j<k. snd (r (reads s0 + j) cap) = NoErr) \<and> snd (r (reads s0 + k) cap) = EOF
          \<and> (\<forall>j d. w j d = None)
        \<longrightarrow> (\<exists>s'. dd_loop (Suc k) r w cap s0 = Some (None, s'))"
    using dd_loop_eof [where r = r and w = w and s = s0 and cap = cap] by blast
  have H: "\<forall>lim fuel bs. 0 < sint bs \<and> unat bs \<le> lim
        \<longrightarrow> dd lim fuel r w bs s0 = map_option Done (dd_loop fuel r w (unat bs) s0)"
    using dd_positive by blast
  have I: "\<forall>lim fuel bs. bs \<noteq> 0 \<and> (sint bs < 0 \<or> lim < unat bs)
        \<longrightarrow> dd lim fuel r w bs s0 = Some Panic"
    using dd_panics by blast
  show ?thesis
    using A B C D E F1 F2 F3 F4 G H I by (intro conjI)
qed


theorem dd_counter_sums_writes_witness:
  "sink_log (dd_start 0) = []
   \<and> dd_loop 2 three_then_eof accept_all 4 (dd_start 0)
       = Some (None, \<lparr>reads = 2, writes = 1, sink_log = [[1, 2, 3]], bytesWritten = 3,
                      trace = [Rd FTransferred, Wr FTransferred]\<rparr>)
   \<and> bytesWritten (dd_after 2 three_then_eof accept_all 4 (dd_start 0))
       = bytesWritten (dd_start 0)
         + word_of_nat (written_total (dd_after 2 three_then_eof accept_all 4 (dd_start 0)))
   \<and> written_total (dd_after 2 three_then_eof accept_all 4 (dd_start 0)) = 3
   \<and> (\<exists>s'. dd_loop (Suc 1) three_then_eof accept_all 4 (dd_start 0) = Some (None, s'))
   \<and> sint (bytesWritten (dd_after 1 three_then_eof accept_all 4 (dd_start 0)))
       \<le> sint (bytesWritten (dd_after (Suc 1) three_then_eof accept_all 4 (dd_start 0)))"
proof -
  have fresh: "sink_log (dd_start 0) = []"
    by (simp add: dd_start_def)
  note t = dd_counter_sums_writes [OF fresh, of three_then_eof accept_all 4]
  have A: "bytesWritten (dd_after 2 three_then_eof accept_all 4 (dd_start 0))
       = bytesWritten (dd_start 0)
         + word_of_nat (written_total (dd_after 2 three_then_eof accept_all 4 (dd_start 0)))"
    using t [THEN conjunct1] by blast
  have g: "(\<forall>j<1. snd (three_then_eof (reads (dd_start 0) + j) 4) = NoErr)
          \<and> snd (three_then_eof (reads (dd_start 0) + 1) 4) = EOF
          \<and> (\<forall>j d. accept_all j d = None)"
    by (simp add: three_then_eof_def accept_all_def dd_start_def)
  have G: "\<exists>s'. dd_loop (Suc 1) three_then_eof accept_all 4 (dd_start 0) = Some (None, s')"
    using t [THEN conjunct2, THEN conjunct2, THEN conjunct2, THEN conjunct2, THEN conjunct2,
             THEN conjunct2, THEN conjunct2, THEN conjunct2, THEN conjunct2, THEN conjunct1,
             THEN spec, of 1] g
    by blast
  have W: "written_total (dd_after 2 three_then_eof accept_all 4 (dd_start 0)) = 3"
    by (simp add: dd_after_eval written_total_def)
  have S: "Suc 1 = 2" by simp
  have c: "0 \<le> sint (bytesWritten (dd_start 0))
          \<and> sint (bytesWritten (dd_start 0))
              + int (written_total (dd_after (Suc 1) three_then_eof accept_all 4 (dd_start 0)))
            < 2 ^ 63"
    unfolding S by (simp add: W dd_start_counter)
  have M: "sint (bytesWritten (dd_after 1 three_then_eof accept_all 4 (dd_start 0)))
       \<le> sint (bytesWritten (dd_after (Suc 1) three_then_eof accept_all 4 (dd_start 0)))"
    using t [THEN conjunct2, THEN conjunct2, THEN conjunct1, THEN spec, of 1] c
    by blast
  show ?thesis
    using fresh dd_loop_eval A W G M by (intro conjI)
qed

text \<open>
  Claim C2 as the spec states it fails where the counter leaves the \<open>int64\<close> range:
  copying 4 MiB blocks from an endless source, the counter is \<open>2 ^ 63 - 2 ^ 22\<close> after
  \<open>2 ^ 41 - 1\<close> iterations and \<open>- 2 ^ 63\<close> after \<open>2 ^ 41\<close>, when \<open>2 ^ 63\<close> bytes
  have been written: it has decreased and is no longer the sum of the writes.
\<close>

theorem dd_counter_wraps:
  "written_total (dd_after 2199023255552 zeros_4M accept_all 4194304 (dd_start 0))
     = 9223372036854775808
   \<and> sint (bytesWritten (dd_after 2199023255552 zeros_4M accept_all 4194304 (dd_start 0)))
     = - 9223372036854775808
   \<and> sint (bytesWritten (dd_after 2199023255551 zeros_4M accept_all 4194304 (dd_start 0)))
     = 9223372036850581504"
  by (simp add: dd_after_zeros dd_start_total dd_start_counter)

section \<open>A block size of zero\<close>

lemma dd_zero: "dd lim fuel r w 0 s = Some (Done (Some BufferSizeZero, s))"
  by (simp add: dd_def)

lemma pbs_zero: "parseBlockSize ''0'' d = Inr 0"
  by (simp add: parseBlockSize_def unitSwitch_def ParseInt_def ParseUint_def digits_val_def digit_val_def is_digit_def)

lemma doOneTransfer_zero:
  assumes "Bs t = 0"
    and "inFile env (InputFilename t) (Bs t) (Size t) (Skip t) (Count t) (Total t) = Inr (st, tot)"
    and "outFile env os (OutputFilename t) (Bs t) (Seek t) (Oflag t) = Inr snk"
  shows "doOneTransfer fuel env os t
           = Some (Done (Some BufferSizeZero, t\<lparr>Total := tot\<rparr>, []))"
  using assms by (simp add: doOneTransfer_def dd_zero dd_start_def)

lemma worker_zero:
  assumes "Bs t = 0"
    and "inFile env (InputFilename t) (Bs t) (Size t) (Skip t) (Count t) (Total t) = Inr (st, tot)"
    and "outFile env os (OutputFilename t) (Bs t) (Seek t) (Oflag t) = Inr snk"
  shows "worker fuel env os now t
           = Some (Done ([LogTransferError (InputFilename t) (OutputFilename t) BufferSizeZero],
                   t\<lparr>Total := tot, Finished := True, EndTime := now\<rparr>,
                   [Lock, Wr FFinished, Wr FEndTime, Unlock]))"
  using doOneTransfer_zero [OF assms] by (simp add: worker_def)

lemma idx1: "[1 ..< Suc (nat 1)] = [1]"
  by simp

lemma run_zero_bs:
  "run_config linux_flags noon 1 sets_zero_bs = Started [] [newTransfer zero_bs_set 0 0 (noon 1)]"
  unfolding run_config_def idx1
  by (simp add: MaxTransfers_def sets_zero_bs_def zero_bs_set_def flag_defaults_def pbs_zero
        parseConvOflag_def Let_def)

lemma inFile_zero_bs:
  "inFile calm_world ''input.iso'' 0 0 0 MaxInt64 0 = Inr (FileFrom ''input.iso'' 0, 2048)"
  by (simp add: inFile_def calm_world_def)

lemma outFile_zero_bs:
  "outFile calm_world linux_flags ''output.img'' 0 0 0 = Inr (OutFile ''output.img'' 0x41 0)"
  by (simp add: outFile_def outFile_perm_def allowedFlags_def linux_flags_def calm_world_def)

lemma worker_zero_bs:
  "worker 0 calm_world linux_flags 9 (newTransfer zero_bs_set 0 0 (noon 1))
     = Some (Done ([LogTransferError ''input.iso'' ''output.img'' BufferSizeZero],
             (newTransfer zero_bs_set 0 0 (noon 1))\<lparr>Total := 2048, Finished := True, EndTime := 9\<rparr>,
             [Lock, Wr FFinished, Wr FEndTime, Unlock]))"
proof -
  let ?t = "newTransfer zero_bs_set 0 0 (noon 1)"
  have f: "InputFilename ?t = ''input.iso''" "OutputFilename ?t = ''output.img''" "Bs ?t = 0"
    "Size ?t = 0" "Skip ?t = 0" "Count ?t = MaxInt64" "Total ?t = 0" "Seek ?t = 0" "Oflag ?t = 0"
    by (simp_all add: newTransfer_def zero_bs_set_def flag_defaults_def)
  have a: "inFile calm_world (InputFilename ?t) (Bs ?t) (Size ?t) (Skip ?t) (Count ?t) (Total ?t)
             = Inr (FileFrom ''input.iso'' 0, 2048)"
    by (simp only: f inFile_zero_bs)
  have b: "outFile calm_world linux_flags (OutputFilename ?t) (Bs ?t) (Seek ?t) (Oflag ?t)
             = Inr (OutFile ''output.img'' 0x41 0)"
    by (simp only: f outFile_zero_bs)
  show ?thesis
    using worker_zero [OF f(3) a b, of 0 9] by (simp only: f)
qed


text \<open>
  Claim C5, as amended. With a block size of zero, \<open>dd\<close> returns the error
  \<open>input buffer size is zero\<close> (not a read or write error) before any \<open>Read\<close> or
  \<open>Write\<close>, the state and the counter untouched. It is an error of that transfer's
  worker, not a fatal configuration error: \<open>parseBlockSize\<close> accepts the token \<open>0\<close>,
  and when source and sink open, \<open>doOneTransfer\<close> returns the error after opening
  them and the worker logs it and marks the transfer finished.
\<close>

theorem zero_block_size_is_a_worker_error:
  "dd lim fuel r w 0 s = Some (Done (Some BufferSizeZero, s))
   \<and> parseBlockSize ''0'' d = Inr 0
   \<and> (\<forall>st tot snk. Bs t = 0
          \<and> inFile env (InputFilename t) (Bs t) (Size t) (Skip t) (Count t) (Total t) = Inr (st, tot)
          \<and> outFile env os (OutputFilename t) (Bs t) (Seek t) (Oflag t) = Inr snk
        \<longrightarrow> doOneTransfer fuel env os t
              = Some (Done (Some BufferSizeZero, t\<lparr>Total := tot\<rparr>, []))
          \<and> worker fuel env os now t
              = Some (Done
                  ([LogTransferError (InputFilename t) (OutputFilename t) BufferSizeZero],
                   t\<lparr>Total := tot, Finished := True, EndTime := now\<rparr>,
                   [Lock, Wr FFinished, Wr FEndTime, Unlock])))"
proof (intro conjI allI impI)
  show "dd lim fuel r w 0 s = Some (Done (Some BufferSizeZero, s))"
    by (rule dd_zero)
  show "parseBlockSize ''0'' d = Inr 0"
    by (rule pbs_zero)
next
  fix st tot snk
  assume a: "Bs t = 0
          \<and> inFile env (InputFilename t) (Bs t) (Size t) (Skip t) (Count t) (Total t) = Inr (st, tot)
          \<and> outFile env os (OutputFilename t) (Bs t) (Seek t) (Oflag t) = Inr snk"
  show "doOneTransfer fuel env os t
              = Some (Done (Some BufferSizeZero, t\<lparr>Total := tot\<rparr>, []))"
    using doOneTransfer_zero [where st = st and snk = snk and tot = tot and t = t] a by blast
next
  fix st tot snk
  assume a: "Bs t = 0
          \<and> inFile env (InputFilename t) (Bs t) (Size t) (Skip t) (Count t) (Total t) = Inr (st, tot)
          \<and> outFile env os (OutputFilename t) (Bs t) (Seek t) (Oflag t) = Inr snk"
  show "worker fuel env os now t
              = Some (Done
                  ([LogTransferError (InputFilename t) (OutputFilename t) BufferSizeZero],
                   t\<lparr>Total := tot, Finished := True, EndTime := now\<rparr>,
                   [Lock, Wr FFinished, Wr FEndTime, Unlock]))"
    using worker_zero [where st = st and snk = snk and tot = tot and t = t] a by blast
qed


theorem zero_block_size_is_a_worker_error_witness:
  "dd 4096 0 three_then_eof accept_all 0 (dd_start 0)
     = Some (Done (Some BufferSizeZero, dd_start 0))
   \<and> parseBlockSize ''0'' 512 = Inr 0
   \<and> doOneTransfer 0 calm_world linux_flags (newTransfer zero_bs_set 0 0 7)
       = Some (Done (Some BufferSizeZero, (newTransfer zero_bs_set 0 0 7)\<lparr>Total := 2048\<rparr>, []))"
proof -
  let ?t = "newTransfer zero_bs_set 0 0 7"
  have f: "InputFilename ?t = ''input.iso''" "OutputFilename ?t = ''output.img''" "Bs ?t = 0"
    "Size ?t = 0" "Skip ?t = 0" "Count ?t = MaxInt64" "Total ?t = 0" "Seek ?t = 0" "Oflag ?t = 0"
    by (simp_all add: newTransfer_def zero_bs_set_def flag_defaults_def)
  have a: "inFile calm_world (InputFilename ?t) (Bs ?t) (Size ?t) (Skip ?t) (Count ?t) (Total ?t)
             = Inr (FileFrom ''input.iso'' 0, 2048)"
    by (simp only: f inFile_zero_bs)
  have b: "outFile calm_world linux_flags (OutputFilename ?t) (Bs ?t) (Seek ?t) (Oflag ?t)
             = Inr (OutFile ''output.img'' 0x41 0)"
    by (simp only: f outFile_zero_bs)
  note t = zero_block_size_is_a_worker_error
             [of 4096 0 three_then_eof accept_all "dd_start 0" 512 ?t calm_world linux_flags 9]
  have "doOneTransfer 0 calm_world linux_flags ?t
          = Some (Done (Some BufferSizeZero, ?t\<lparr>Total := 2048\<rparr>, []))"
    using t f(3) a b by blast
  then show ?thesis
    using t by blast
qed

text \<open>
  Claim C5 as the spec states it fails: a set with the block-size token \<open>0\<close> is not
  rejected when the configuration is read. \<open>run\<close> starts its transfer, and the error
  appears in the worker's log line after source and sink were opened.
\<close>

theorem zero_block_size_accepted:
  "run_config linux_flags noon 1 sets_zero_bs = Started [] [newTransfer zero_bs_set 0 0 (noon 1)]
   \<and> Bs (newTransfer zero_bs_set 0 0 (noon 1)) = 0
   \<and> worker 0 calm_world linux_flags 9 (newTransfer zero_bs_set 0 0 (noon 1))
     = Some (Done ([LogTransferError ''input.iso'' ''output.img'' BufferSizeZero],
             (newTransfer zero_bs_set 0 0 (noon 1))\<lparr>Total := 2048, Finished := True, EndTime := 9\<rparr>,
             [Lock, Wr FFinished, Wr FEndTime, Unlock]))"
  using run_zero_bs worker_zero_bs by (simp add: newTransfer_def)



section \<open>Which accesses hold the transfer's mutex\<close>

lemma dd_iter_trace:
  assumes "dd_iter r w cap s = Inr s' \<or> dd_iter r w cap s = Inl (res, s')"
  shows "(trace s' = trace s \<and> bytesWritten s' = bytesWritten s)
       \<or> trace s' = trace s @ [Rd FTransferred, Wr FTransferred]"
proof (cases "r (reads s) cap")
  case (Pair data err)
  show ?thesis
  proof (cases "take cap data = []")
    case True
    then show ?thesis
      using assms dd_iter_empty [where r = r and s = s and w = w, OF Pair True]
      by (cases err) auto
  next
    case False
    show ?thesis
    proof (cases "w (writes s) (take cap data)")
      case None
      then show ?thesis
        using assms dd_iter_write_ok [where r = r and s = s and w = w, OF Pair False None]
        by (cases err) auto
    next
      case (Some e)
      then show ?thesis
        using assms dd_iter_write_error [where r = r and s = s and w = w, OF Pair False Some]
        by auto
    qed
  qed
qed

lemma dd_iter_unguarded:
  assumes "dd_iter r w cap s = Inr s' \<or> dd_iter r w cap s = Inl (res, s')"
    and "(trace s = [] \<and> bytesWritten s = c0) \<or> (\<exists>es. trace s = Rd FTransferred # es)"
  shows "(trace s' = [] \<and> bytesWritten s' = c0) \<or> (\<exists>es. trace s' = Rd FTransferred # es)"
  using dd_iter_trace [OF assms(1)] assms(2)
  by (elim disjE conjE exE) simp_all

lemma dd_after_unguarded:
  "(trace s = [] \<and> bytesWritten s = c0) \<or> (\<exists>es. trace s = Rd FTransferred # es) \<Longrightarrow>
   (trace (dd_after n r w cap s) = [] \<and> bytesWritten (dd_after n r w cap s) = c0)
     \<or> (\<exists>es. trace (dd_after n r w cap s) = Rd FTransferred # es)"
proof (induction n arbitrary: s)
  case 0
  then show ?case by simp
next
  case (Suc n)
  show ?case
  proof (cases "dd_iter r w cap s")
    case (Inl p)
    obtain res s' where p: "p = (res, s')" by (cases p)
    have i: "dd_iter r w cap s = Inl (res, s')" using Inl p by simp
    show ?thesis
      using dd_iter_unguarded [OF disjI2 [OF i] Suc.prems]
      by (simp only: dd_after_Suc_Inl [OF i])
  next
    case (Inr s')
    have "(trace s' = [] \<and> bytesWritten s' = c0) \<or> (\<exists>es. trace s' = Rd FTransferred # es)"
      using dd_iter_unguarded [OF disjI1 [OF Inr] Suc.prems] .
    then have "(trace (dd_after n r w cap s') = [] \<and> bytesWritten (dd_after n r w cap s') = c0)
     \<or> (\<exists>es. trace (dd_after n r w cap s') = Rd FTransferred # es)"
      by (rule Suc.IH)
    then show ?thesis
      by (simp only: dd_after_Suc_Inr [OF Inr])
  qed
qed

lemma dd_unguarded:
  assumes "dd lim fuel r w bs (dd_start c0) = Some (Done (res, s'))"
  shows "(trace s' = [] \<and> bytesWritten s' = c0) \<or> (\<exists>es. trace s' = Rd FTransferred # es)"
proof -
  have st: "(trace (dd_start c0) = [] \<and> bytesWritten (dd_start c0) = c0)
             \<or> (\<exists>es. trace (dd_start c0) = Rd FTransferred # es)"
    by (simp add: dd_start_def)
  show ?thesis
  proof (cases "bs = 0")
    case True
    then have "s' = dd_start c0"
      using assms by (simp add: dd_def)
    then show ?thesis using st by simp
  next
    case False
    then have "dd_loop fuel r w (unat bs) (dd_start c0) = Some (res, s')"
      using assms by (auto simp: dd_def split: if_splits)
    then have "s' = dd_after fuel r w (unat bs) (dd_start c0)"
      by (rule dd_loop_after)
    then show ?thesis
      using dd_after_unguarded [OF st] by simp
  qed
qed

lemma doOneTransfer_unguarded:
  assumes "doOneTransfer fuel env os t = Some (Done (err, t', es))"
  shows "(es = [] \<and> Transferred t' = Transferred t) \<or> (\<exists>es'. es = Rd FTransferred # es')"
proof (cases "inFile env (InputFilename t) (Bs t) (Size t) (Skip t) (Count t) (Total t)")
  case (Inl e)
  then show ?thesis using assms by (simp add: doOneTransfer_def)
next
  case (Inr p)
  obtain st tot where p: "p = (st, tot)" by (cases p)
  show ?thesis
  proof (cases "outFile env os (OutputFilename t) (Bs t) (Seek t) (Oflag t)")
    case (Inl e)
    then show ?thesis using assms Inr p by (auto simp: doOneTransfer_def)
  next
    case snk: (Inr snk)
    show ?thesis
    proof (cases "dd (max_alloc env) fuel (reader_of env st) (writer_of env snk) (Bs t)
                    (dd_start (Transferred t))")
      case None
      then show ?thesis using assms Inr p snk by (simp add: doOneTransfer_def)
    next
      case (Some out)
      then obtain res s' where d:
        "dd (max_alloc env) fuel (reader_of env st) (writer_of env snk) (Bs t)
            (dd_start (Transferred t)) = Some (Done (res, s'))"
        using assms Inr p snk by (cases out) (auto simp: doOneTransfer_def)
      have r: "es = trace s'" "Transferred t' = bytesWritten s'"
        using assms Inr p snk d by (auto simp: doOneTransfer_def)
      show ?thesis
        using dd_unguarded [OF d] r by simp
    qed
  qed
qed

lemma guarded_Rd: "\<not> guarded False (Rd f # es)"
  by simp

lemma dd_loop_three:
  assumes "3 \<le> cap"
  shows "dd_loop (Suc (Suc 0)) three_then_eof accept_all cap (dd_start c)
     = Some (None, \<lparr>reads = 2, writes = 1, sink_log = [[1, 2, 3]], bytesWritten = c + 3,
                    trace = [Rd FTransferred, Wr FTransferred]\<rparr>)"
proof -
  have t: "take cap [1, 2, 3 :: byte] = [1, 2, 3]"
    using assms by simp
  have p: "0 < cap" using assms by simp
  show ?thesis
    by (simp add: dd_iter_def three_then_eof_def accept_all_def dd_start_def t p Let_def
          del: take_Cons_numeral)
qed

lemma dd_loop_2: "dd_loop 2 r w cap s = dd_loop (Suc (Suc 0)) r w cap s"
  by (simp only: numeral_2_eq_2)

lemma dd_three:
  "dd 281474976710656 2 three_then_eof accept_all 4194304 (dd_start 0)
     = Some (Done (None, \<lparr>reads = 2, writes = 1, sink_log = [[1, 2, 3]], bytesWritten = 3,
                    trace = [Rd FTransferred, Wr FTransferred]\<rparr>))"
proof -
  have "dd 281474976710656 2 three_then_eof accept_all 4194304 (dd_start 0)
          = map_option Done (dd_loop 2 three_then_eof accept_all 4194304 (dd_start 0))"
    by (simp add: dd_def)
  then show ?thesis
    using dd_loop_three [of 4194304 0] by (simp add: dd_loop_2)
qed

lemma inFile_example:
  "inFile calm_world ''/dev/zero'' 4194304 1073741824 0 MaxInt64 0
     = Inr (SectionReader ''/dev/zero'' 0 1073741824, 1073741824)"
  by (simp add: inFile_def calm_world_def)

lemma outFile_example:
  "outFile calm_world linux_flags ''zero1.img'' 4194304 0 0x101000
     = Inr (OutFile ''zero1.img'' 0x101041 0)"
  by (simp add: outFile_def outFile_perm_def allowedFlags_def linux_flags_def calm_world_def)

lemma worker_example:
  "worker 2 calm_world linux_flags 9 (newTransfer good_set 4194304 0x101000 t0)
     = Some (Done ([], (newTransfer good_set 4194304 0x101000 t0)
                   \<lparr>Total := 1073741824, Transferred := 3, Finished := True, EndTime := 9\<rparr>,
             [Rd FTransferred, Wr FTransferred, Lock, Wr FFinished, Wr FEndTime, Unlock]))"
proof -
  let ?t = "newTransfer good_set 4194304 0x101000 t0"
  have f: "InputFilename ?t = ''/dev/zero''" "OutputFilename ?t = ''zero1.img''"
    "Bs ?t = 4194304" "Size ?t = 1073741824" "Skip ?t = 0" "Count ?t = MaxInt64"
    "Total ?t = 0" "Seek ?t = 0" "Oflag ?t = 0x101000" "Transferred ?t = 0"
    by (simp_all add: newTransfer_def good_set_def flag_defaults_def)
  have r: "reader_of calm_world (SectionReader ''/dev/zero'' 0 1073741824) = three_then_eof"
    "writer_of calm_world (OutFile ''zero1.img'' 0x101041 0) = accept_all"
    "max_alloc calm_world = 281474976710656"
    by (simp_all add: calm_world_def)
  have d: "doOneTransfer 2 calm_world linux_flags ?t
             = Some (Done (None, ?t\<lparr>Total := 1073741824, Transferred := 3\<rparr>,
                     [Rd FTransferred, Wr FTransferred]))"
    by (simp add: doOneTransfer_def f inFile_example outFile_example r dd_three Let_def)
  show ?thesis
    by (simp add: worker_def d)
qed

lemma renderer_guarded: "guarded False printAll_events \<and> guarded False startProgress_events"
  by (simp add: printAll_events_def startProgress_events_def)


text \<open>
  Claim C9 does not hold of the code. The renderer's reads and the worker's writes of
  \<open>Finished\<close> and \<open>EndTime\<close> happen between \<open>Lock\<close> and \<open>Unlock\<close>, but the copy loop
  updates the counter (\<open>*bytesWritten\<close> is the transfer's \<open>Transferred\<close> field) with
  no lock held: every run of a worker that changes \<open>Transferred\<close> has an access outside
  the mutex in its trace.
\<close>

theorem worker_counter_unguarded:
  assumes "worker fuel env os now t = Some (Done (lg, t', es))"
    and "Transferred t' \<noteq> Transferred t"
  shows "\<not> guarded False es"
proof (cases "doOneTransfer fuel env os t")
  case None
  then show ?thesis using assms(1) by (simp add: worker_def)
next
  case (Some out)
  then obtain err t1 es1 where d: "doOneTransfer fuel env os t = Some (Done (err, t1, es1))"
    using assms(1) by (cases out) (auto simp: worker_def)
  have w: "t' = t1\<lparr>Finished := True, EndTime := now\<rparr>"
          "es = es1 @ [Lock, Wr FFinished, Wr FEndTime, Unlock]"
    using assms(1) d by (auto simp: worker_def)
  have "Transferred t1 \<noteq> Transferred t"
    using assms(2) w(1) by simp
  then obtain es' where "es1 = Rd FTransferred # es'"
    using doOneTransfer_unguarded [OF d] by blast
  then show ?thesis
    using w(2) by simp
qed


theorem worker_counter_unguarded_witness:
  "worker 2 calm_world linux_flags 9 (newTransfer good_set 4194304 0x101000 7)
     = Some (Done ([], (newTransfer good_set 4194304 0x101000 7)
                   \<lparr>Total := 1073741824, Transferred := 3, Finished := True, EndTime := 9\<rparr>,
             [Rd FTransferred, Wr FTransferred, Lock, Wr FFinished, Wr FEndTime, Unlock]))
   \<and> \<not> guarded False [Rd FTransferred, Wr FTransferred, Lock, Wr FFinished, Wr FEndTime, Unlock]
   \<and> guarded False [Lock, Wr FFinished, Wr FEndTime, Unlock]
   \<and> guarded False printAll_events
   \<and> guarded False startProgress_events"
proof -
  let ?t = "newTransfer good_set 4194304 0x101000 7"
  let ?t' = "?t\<lparr>Total := 1073741824, Transferred := 3, Finished := True, EndTime := 9\<rparr>"
  have n: "Transferred ?t' \<noteq> Transferred ?t"
    by (simp add: newTransfer_def)
  have "\<not> guarded False [Rd FTransferred, Wr FTransferred, Lock, Wr FFinished, Wr FEndTime, Unlock]"
    using worker_counter_unguarded [OF worker_example [of 7] n] .
  then show ?thesis
    using worker_example [of 7] renderer_guarded by simp
qed

end
